theory Spec2Isabelle
  imports Main "HOL-Library.Product_Lexorder" "HOL-Library.Sublist"
begin

section \<open>The crawler's tables and configuration\<close>

text \<open>
  The crawler keeps two tables in a relational store: the queue (the frontier) and the
  pages. A table is modelled as the list of its rows in insertion order. The store itself
  is outside the repository: a statement is taken to run as written and to succeed, except
  for the violation of the unique key on the URL column, which the source handles. Two
  URLs are the same key when they are the same string.
\<close>

text \<open>
  The repository holds three versions of the crawler class. The queue table of
  \<open>src/WebCrawler.ts\<close>, and of the version whose \<open>queueUrls\<close> selects before it
  inserts, has the columns id, url and is_crawled; the version with \<open>dequeueUrl\<close> has
  the column depth as well.
\<close>

record frow =
  qid :: nat
  qurl :: string
  is_crawled :: bool

record qrow = frow +
  depth :: int

type_synonym queue = "qrow list"

datatype sql_error = ER_DUP_ENTRY | ER_OTHER string

text \<open>
  An entry of the log holds the level and the message, or its fixed part where the
  message goes on with a value. What \<open>dequeueUrl\<close> prints of its rows on the console is
  not part of the model.
\<close>

datatype log_entry = LogError string | LogInfo string

text \<open>
  The id of a new row comes from the AUTO_INCREMENT column: it is larger than every id in
  the table. The model takes the successor of the largest id present.
\<close>

definition fresh_id :: "('a frow_scheme) list \<Rightarrow> nat" where
  "fresh_id q = Suc (fold max (map qid q) 0)"

record config =
  targetUrl :: string
  maxDepth :: int
  urlColumnName :: string

text \<open>
  A value of a result row, and a result row as the driver hands it back: an object with
  one property for each selected column.
\<close>

datatype sql_value = SInt int | SText string

type_synonym result_row = "(string \<times> sql_value) list"

definition row_prop :: "result_row \<Rightarrow> string \<Rightarrow> sql_value option" where
  "row_prop row name = map_of row name"

section \<open>Claiming the next URL: dequeueUrl\<close>

text \<open>
  The first statement of \<open>dequeueUrl\<close>:
  \<^verbatim>\<open>SELECT id FROM queue WHERE is_crawled = 0 AND depth <= ? ORDER BY depth ASC, id ASC LIMIT ?\<close>
  with the parameters \<open>[maxDepth, 1]\<close>. Only the column \<open>id\<close> is selected.
\<close>

definition eligible :: "int \<Rightarrow> qrow \<Rightarrow> bool" where
  "eligible md r \<longleftrightarrow> \<not> is_crawled r \<and> depth r \<le> md"

definition select_order :: "int \<Rightarrow> queue \<Rightarrow> qrow list" where
  "select_order md q = sort_key (\<lambda>r. (depth r, qid r)) (filter (eligible md) q)"

definition dequeue_select :: "int \<Rightarrow> nat \<Rightarrow> queue \<Rightarrow> result_row list" where
  "dequeue_select md limit q =
     map (\<lambda>r. [(''id'', SInt (int (qid r)))]) (take limit (select_order md q))"

text \<open>
  The second statement:
  \<^verbatim>\<open>UPDATE queue SET is_crawled = 1 WHERE id IN (?)\<close>
  with the list of the selected ids.
\<close>

definition dequeue_update :: "sql_value option list \<Rightarrow> queue \<Rightarrow> queue" where
  "dequeue_update ids q =
     map (\<lambda>r. if Some (SInt (int (qid r))) \<in> set ids then r\<lparr>is_crawled := True\<rparr> else r) q"

text \<open>
  \<open>dequeueUrl\<close> itself: the result is the new queue and the returned value, \<open>None\<close>
  standing for \<open>undefined\<close>. The returned value is the property named by the URL column
  of the first result row.
\<close>

definition dequeueUrl :: "config \<Rightarrow> queue \<Rightarrow> queue \<times> sql_value option" where
  "dequeueUrl c q =
     (let rows = dequeue_select (maxDepth c) 1 q;
          ids = map (\<lambda>row. row_prop row ''id'') rows
      in if length ids = 0 then (q, None)
         else (dequeue_update ids q, row_prop (hd rows) (urlColumnName c)))"

section \<open>Enqueueing: queueUrls\<close>

text \<open>
  \<^verbatim>\<open>INSERT INTO queue (url, depth) VALUES (?, ?)\<close>: the unique key on the URL column
  rejects a URL that is already in the table with \<open>ER_DUP_ENTRY\<close>; otherwise the row is
  appended, is_crawled taking its default 0, and the result holds the id of the new row
  (\<open>insertId\<close>).
\<close>

definition insert_queue :: "string \<Rightarrow> int \<Rightarrow> queue \<Rightarrow> sql_error + (queue \<times> nat)" where
  "insert_queue u d q =
     (if u \<in> set (map qurl q) then Inl ER_DUP_ENTRY
      else Inr (q @ [\<lparr>qid = fresh_id q, qurl = u, is_crawled = False, depth = d\<rparr>], fresh_id q))"

text \<open>
  The loop of \<open>queueUrls\<close> (the version with the depth column): each URL is inserted
  with the parameters \<open>[url, 0]\<close>, and logged when the result has an \<open>insertId\<close> that
  is not 0; \<open>ER_DUP_ENTRY\<close> is swallowed, any other error is thrown again. The result is
  the queue, or the error thrown, and the lines logged.
\<close>

fun queueUrls_loop :: "string list \<Rightarrow> queue \<Rightarrow> (sql_error + queue) \<times> log_entry list" where
  "queueUrls_loop [] q = (Inr q, [])"
| "queueUrls_loop (u # us) q =
     (case insert_queue u 0 q of
        Inr (q', insertId) \<Rightarrow>
          (let lg = (if insertId \<noteq> 0 then [LogInfo (''Queued URL: '' @ u)] else []);
               (r, lgs) = queueUrls_loop us q'
           in (r, lg @ lgs))
      | Inl e \<Rightarrow> if e \<noteq> ER_DUP_ENTRY then (Inl e, []) else queueUrls_loop us q)"

text \<open>
  \<open>queueUrls\<close>: the loop runs in a transaction; it is committed at the end, and rolled
  back when the loop throws. The result is the queue afterwards, the lines logged and the
  error thrown, if any.
\<close>

definition queueUrls :: "string list \<Rightarrow> queue \<Rightarrow> queue \<times> log_entry list \<times> sql_error option" where
  "queueUrls urls q =
     (case queueUrls_loop urls q of
        (Inr q', lg) \<Rightarrow> (q', lg, None)
      | (Inl e, lg) \<Rightarrow> (q, lg, Some e))"

text \<open>
  The seed: \<open>createTables\<close> ends with the same INSERT for \<open>[targetUrl, 0]\<close>; every
  error is caught and logged there. The result is the queue and the lines logged.
\<close>

definition seed :: "config \<Rightarrow> queue \<Rightarrow> queue \<times> log_entry list" where
  "seed c q =
     (case insert_queue (targetUrl c) 0 q of
        Inr (q', insertId) \<Rightarrow> (q', [])
      | Inl e \<Rightarrow> (q, [LogError ''Error creating tables:'']))"

text \<open>
  \<open>start\<close> of the version with \<open>dequeueUrl\<close>: the tables are created and the
  target URL is seeded; then URLs are claimed one after the other, each handed to a fetch
  library of its own, until \<open>dequeueUrl\<close> returns \<open>undefined\<close>. Each round that
  goes on has marked a row, so the loop ends.
\<close>

function start_loop :: "config \<Rightarrow> queue \<Rightarrow> sql_value list \<Rightarrow> queue \<times> sql_value list" where
  "start_loop c q given =
     (case dequeueUrl c q of
        (q', None) \<Rightarrow> (q', given)
      | (q', Some url) \<Rightarrow> start_loop c q' (given @ [url]))"
  by pat_completeness auto
termination
  apply (relation "measure (\<lambda>(c, q, given). length (filter (eligible (maxDepth c)) q))")
   apply simp
  subgoal premises d for c q given q' url
  proof -
    let ?md = "maxDepth c"
    have le: "length (filter (eligible ?md) (map f xs)) \<le> length (filter (eligible ?md) xs)"
      if "\<And>x. eligible ?md (f x) \<Longrightarrow> eligible ?md x" for f and xs :: queue
      using that by (induction xs) auto
    have less: "length (filter (eligible ?md) (map f xs)) < length (filter (eligible ?md) xs)"
      if mono: "\<And>x. eligible ?md (f x) \<Longrightarrow> eligible ?md x"
        and r: "r \<in> set xs" "eligible ?md r" "\<not> eligible ?md (f r)" for f r and xs :: queue
      using r
    proof (induction xs)
      case Nil
      then show ?case by simp
    next
      case (Cons a xs)
      show ?case
      proof (cases "a = r")
        case True
        with Cons.prems le [OF mono, of f xs] show ?thesis by simp
      next
        case False
        with Cons have "length (filter (eligible ?md) (map f xs)) < length (filter (eligible ?md) xs)"
          by simp
        with mono [of a] show ?thesis by auto
      qed
    qed
    obtain r rs where sel: "select_order ?md q = r # rs"
      using d by (cases "select_order ?md q") (simp_all add: dequeueUrl_def dequeue_select_def Let_def)
    have "r \<in> set (select_order ?md q)" by (simp add: sel)
    then have r: "r \<in> set q" "eligible ?md r"
      by (simp_all add: select_order_def)
    from d sel have q': "q' = map (\<lambda>x. if Some (SInt (int (qid x))) \<in> set [Some (SInt (int (qid r)))]
        then x\<lparr>is_crawled := True\<rparr> else x) q"
      by (simp add: dequeueUrl_def dequeue_select_def dequeue_update_def row_prop_def Let_def)
    have "length (filter (eligible ?md) q') < length (filter (eligible ?md) q)"
      unfolding q'
    proof (rule less [where r = r])
      show "r \<in> set q" by (rule r(1))
      show "eligible ?md r" by (rule r(2))
      show "\<not> eligible ?md
          (if Some (SInt (int (qid r))) \<in> set [Some (SInt (int (qid r)))]
           then r\<lparr>is_crawled := True\<rparr> else r)"
        by (simp add: eligible_def)
      show "eligible ?md
          (if Some (SInt (int (qid x))) \<in> set [Some (SInt (int (qid r)))]
           then x\<lparr>is_crawled := True\<rparr> else x) \<Longrightarrow> eligible ?md x" for x
        by (simp add: eligible_def split: if_splits)
    qed
    then show ?thesis by simp
  qed
  done

definition start :: "config \<Rightarrow> queue \<Rightarrow> queue \<times> log_entry list \<times> sql_value list" where
  "start c q =
     (let (q1, lg) = seed c q;
          (q2, given) = start_loop c q1 []
      in (q2, [LogInfo ''Starting WebXenon...''] @ lg @ [LogInfo ''WebXenon stopped.''], given))"

text \<open>
  The version of \<open>queueUrls\<close> on the queue table without a depth column: a SELECT of the
  rows with this URL, and an INSERT of the URL when there is none.
\<close>

fun queueUrls_select :: "string list \<Rightarrow> frow list \<Rightarrow> frow list" where
  "queueUrls_select [] q = q"
| "queueUrls_select (u # us) q =
     (let result = filter (\<lambda>r. qurl r = u) q
      in if length result = 0
         then queueUrls_select us
                (q @ [\<lparr>qid = fresh_id q, qurl = u, is_crawled = False\<rparr>])
         else queueUrls_select us q)"

text \<open>
  \<open>queueUrls\<close> of \<open>src/WebCrawler.ts\<close> builds one statement from the URLs,
  \<^verbatim>\<open>INSERT IGNORE INTO queue (url, is_crawled) VALUES ("u1", false), ("u2", false)\<close>.
  The text is the intended statement only when there is at least one URL and no URL holds
  a double quote or a backslash; the model stops with \<open>None\<close> otherwise. INSERT IGNORE
  skips a row that violates the unique key.
\<close>

definition sql_safe :: "string \<Rightarrow> bool" where
  "sql_safe u \<longleftrightarrow> CHR 0x22 \<notin> set u \<and> CHR 0x5C \<notin> set u"

fun insert_ignore :: "string list \<Rightarrow> frow list \<Rightarrow> frow list" where
  "insert_ignore [] q = q"
| "insert_ignore (u # us) q =
     (if u \<in> set (map qurl q) then insert_ignore us q
      else insert_ignore us (q @ [\<lparr>qid = fresh_id q, qurl = u, is_crawled = False\<rparr>]))"

definition queueUrls_ignore :: "string list \<Rightarrow> frow list \<Rightarrow> frow list option" where
  "queueUrls_ignore urls q =
     (if urls \<noteq> [] \<and> list_all sql_safe urls then Some (insert_ignore urls q) else None)"

text \<open>
  \<open>markUrlAsCrawled\<close>, and the same statement in \<open>processPage\<close>:
  \<^verbatim>\<open>UPDATE queue SET is_crawled = true WHERE url = ?\<close>.
\<close>

definition markUrlAsCrawled :: "string \<Rightarrow> ('a frow_scheme) list \<Rightarrow> ('a frow_scheme) list" where
  "markUrlAsCrawled u q = map (\<lambda>r. if qurl r = u then r\<lparr>is_crawled := True\<rparr> else r) q"

text \<open>
  Two invocations of \<open>dequeueUrl\<close> on two connections of the pool. An invocation is
  suspended at each \<open>await\<close>, so its two statements are two steps, and the store runs
  the statements of the two invocations in the order they arrive. An invocation has not
  started, has its selected rows in hand, or has finished with the ids it marked and the
  value it returned.
\<close>

datatype call = Ready | Selected "result_row list" | Finished "sql_value option list" "sql_value option"

definition call_step :: "config \<Rightarrow> call \<Rightarrow> queue \<Rightarrow> call \<times> queue" where
  "call_step c st q =
     (case st of
        Ready \<Rightarrow>
          (let rows = dequeue_select (maxDepth c) 1 q;
               ids = map (\<lambda>row. row_prop row ''id'') rows
           in if length ids = 0 then (Finished [] None, q) else (Selected rows, q))
      | Selected rows \<Rightarrow>
          (let ids = map (\<lambda>row. row_prop row ''id'') rows
           in (Finished ids (row_prop (hd rows) (urlColumnName c)), dequeue_update ids q))
      | Finished ids v \<Rightarrow> (Finished ids v, q))"

text \<open>A schedule names, step by step, which of the two invocations runs next.\<close>

datatype caller = First | Second

fun run_calls :: "config \<Rightarrow> caller list \<Rightarrow> call \<times> call \<times> queue \<Rightarrow> call \<times> call \<times> queue" where
  "run_calls c [] s = s"
| "run_calls c (First # sch) (a, b, q) =
     (let (a', q') = call_step c a q in run_calls c sch (a', b, q'))"
| "run_calls c (Second # sch) (a, b, q) =
     (let (b', q') = call_step c b q in run_calls c sch (a, b', q'))"

section \<open>The page table and the fetch callback\<close>

text \<open>
  The value of \<open>res.options.uri\<close> is a string or something else; the type of the fetch
  library's response is not part of the repository, so the other values are a type
  parameter. The URL column of a page row holds the value bound to the statement.
\<close>

datatype 'v uri_value = UriString string | UriOther 'v

record 'u prow =
  pid :: nat
  purl :: 'u
  title :: string
  description :: "string option"
  raw_html :: string

definition fresh_pid :: "'u prow list \<Rightarrow> nat" where
  "fresh_pid ps = Suc (fold max (map pid ps) 0)"

text \<open>
  The page upsert of \<open>processPage\<close>: a SELECT of the rows with this URL; when there is
  one, an UPDATE of title, description and raw HTML of the rows with this URL, otherwise
  an INSERT of the four values.
\<close>

definition upsert_page :: "'u \<Rightarrow> string \<Rightarrow> string option \<Rightarrow> string \<Rightarrow> 'u prow list \<Rightarrow> 'u prow list" where
  "upsert_page u t d h ps =
     (let result = filter (\<lambda>p. purl p = u) ps
      in if length result > 0
         then map (\<lambda>p. if purl p = u then p\<lparr>title := t, description := d, raw_html := h\<rparr> else p) ps
         else ps @ [\<lparr>pid = fresh_pid ps, purl = u, title = t, description = d, raw_html = h\<rparr>])"

text \<open>
  The page upsert of \<open>crawl\<close> in \<open>src/WebCrawler.ts\<close>, one statement:
  \<^verbatim>\<open>INSERT INTO pages (url, title, description, raw_html) VALUES (?, ?, ?, ?)
  ON DUPLICATE KEY UPDATE title=?, description=?, raw_html=?\<close>.
\<close>

definition insert_on_duplicate :: "'u \<Rightarrow> string \<Rightarrow> string option \<Rightarrow> string \<Rightarrow> 'u prow list \<Rightarrow> 'u prow list" where
  "insert_on_duplicate u t d h ps =
     (if u \<in> set (map purl ps)
      then map (\<lambda>p. if purl p = u then p\<lparr>title := t, description := d, raw_html := h\<rparr> else p) ps
      else ps @ [\<lparr>pid = fresh_pid ps, purl = u, title = t, description = d, raw_html = h\<rparr>])"

text \<open>
  What the callback reads from a response: the URI and the depth of the request
  (\<open>None\<close> when the depth is undefined), the text of the title selector, the content
  attribute of the description selector, the document's HTML, the body, and the href
  attribute of each anchor in document order (\<open>None\<close> for an anchor without one).
\<close>

record 'v response =
  uri :: "'v uri_value"
  rdepth :: "int option"
  sel_title :: string
  sel_description :: "string option"
  html :: string
  body :: string
  anchors :: "string option list"

record ('v, 'r) crawler_state =
  pages :: "'v uri_value prow list"
  frontier :: "'r list"
  log :: "log_entry list"
  done_calls :: nat

text \<open>\<open>depth < this.maxDepth\<close>; the comparison is false when the depth is undefined.\<close>

definition depth_below :: "int option \<Rightarrow> int \<Rightarrow> bool" where
  "depth_below d md = (case d of None \<Rightarrow> False | Some x \<Rightarrow> x < md)"

text \<open>
  \<open>String.prototype.trim\<close> strips white space and line terminators from both ends. A
  string is the list of its bytes in UTF-8, so a character to strip is one byte (TAB, LF,
  VT, FF, CR, SP), two bytes (U+00A0) or three bytes (U+1680, U+2000 to U+200A, U+2028,
  U+2029, U+202F, U+205F, U+3000, U+FEFF).
\<close>

definition space1 :: "char \<Rightarrow> bool" where
  "space1 a \<longleftrightarrow> a \<in> set [CHR 0x09, CHR 0x0A, CHR 0x0B, CHR 0x0C, CHR 0x0D, CHR 0x20]"

definition space2 :: "char \<Rightarrow> char \<Rightarrow> bool" where
  "space2 a b \<longleftrightarrow> a = CHR 0xC2 \<and> b = CHR 0xA0"

definition space3 :: "char \<Rightarrow> char \<Rightarrow> char \<Rightarrow> bool" where
  "space3 a b c \<longleftrightarrow>
     (a = CHR 0xE1 \<and> b = CHR 0x9A \<and> c = CHR 0x80)
     \<or> (a = CHR 0xE2 \<and> b = CHR 0x80
          \<and> c \<in> set [CHR 0x80, CHR 0x81, CHR 0x82, CHR 0x83, CHR 0x84, CHR 0x85, CHR 0x86,
                       CHR 0x87, CHR 0x88, CHR 0x89, CHR 0x8A, CHR 0xA8, CHR 0xA9, CHR 0xAF])
     \<or> (a = CHR 0xE2 \<and> b = CHR 0x81 \<and> c = CHR 0x9F)
     \<or> (a = CHR 0xE3 \<and> b = CHR 0x80 \<and> c = CHR 0x80)
     \<or> (a = CHR 0xEF \<and> b = CHR 0xBB \<and> c = CHR 0xBF)"

text \<open>
  Stripping from the front; the two tests say which two and which three bytes are a
  character to strip, so that the same function strips the reversed string from its end.
\<close>

fun strip_spaces :: "(char \<Rightarrow> char \<Rightarrow> bool) \<Rightarrow> (char \<Rightarrow> char \<Rightarrow> char \<Rightarrow> bool) \<Rightarrow> string \<Rightarrow> string" where
  "strip_spaces p2 p3 (a # b # c # str) =
     (if space1 a then strip_spaces p2 p3 (b # c # str)
      else if p2 a b then strip_spaces p2 p3 (c # str)
      else if p3 a b c then strip_spaces p2 p3 str
      else a # b # c # str)"
| "strip_spaces p2 p3 [a, b] =
     (if space1 a then strip_spaces p2 p3 [b] else if p2 a b then [] else [a, b])"
| "strip_spaces p2 p3 [a] = (if space1 a then [] else [a])"
| "strip_spaces p2 p3 [] = []"

definition trim_start :: "string \<Rightarrow> string" where
  "trim_start str = strip_spaces space2 space3 str"

definition trim_end :: "string \<Rightarrow> string" where
  "trim_end str = rev (strip_spaces (\<lambda>a b. space2 b a) (\<lambda>a b c. space3 c b a) (rev str))"

definition trim :: "string \<Rightarrow> string" where
  "trim str = trim_end (trim_start str)"

text \<open>
  The link extractor of \<open>processPage\<close>:
  \<^verbatim>\<open>$("a").map((i, el) => $(el).attr("href")).get()
    .filter((link) => link && link.startsWith(this.targetUrl))\<close>.
  The map leaves out the anchors whose href is undefined; the filter keeps a link that
  is not the empty string and starts with the target URL.
\<close>

definition extract_links :: "config \<Rightarrow> string option list \<Rightarrow> string list" where
  "extract_links c as =
     filter (\<lambda>link. link \<noteq> [] \<and> prefix (targetUrl c) link) (List.map_filter (\<lambda>h. h) as)"

text \<open>
  The statement that marks the URL of the response in \<open>processPage\<close> binds the URI
  itself; a value that is not a string equals no URL of the queue.
\<close>

definition mark_uri :: "'v uri_value \<Rightarrow> ('a frow_scheme) list \<Rightarrow> ('a frow_scheme) list" where
  "mark_uri u q = (case u of UriString str \<Rightarrow> markUrlAsCrawled str q | UriOther v \<Rightarrow> q)"

text \<open>
  \<open>processPage\<close>, the callback of the versions with a logger. The error argument is
  \<open>None\<close> for null. The call of \<open>queueUrls\<close> is not awaited; its effect on the queue
  is applied where it is started, and its lines follow the line of the callback in the
  log.
\<close>

definition processPage ::
  "config \<Rightarrow> string option \<Rightarrow> 'v response \<Rightarrow> ('v, qrow) crawler_state \<Rightarrow> ('v, qrow) crawler_state" where
  "processPage c error res s =
     (case error of
        Some e \<Rightarrow>
          s\<lparr>log := log s @ [LogError ''Error crawling URL:''], done_calls := Suc (done_calls s)\<rparr>
      | None \<Rightarrow>
          (let url = uri res;
               d = rdepth res;
               t = trim (sel_title res);
               ds = map_option trim (sel_description res);
               ps = upsert_page url t ds (html res) (pages s);
               q1 = mark_uri url (frontier s);
               (q2, lg, thrown) = (if depth_below d (maxDepth c)
                     then queueUrls (extract_links c (anchors res)) q1 else (q1, [], None))
           in s\<lparr>pages := ps, frontier := q2, log := log s @ [LogInfo ''Crawled URL:''] @ lg,
                done_calls := Suc (done_calls s)\<rparr>))"

text \<open>
  \<open>processPage\<close> of the version whose queue table has no depth column: the same
  statements, run in a transaction, and that version's \<open>queueUrls\<close>.
\<close>

definition processPage_nodepth ::
  "config \<Rightarrow> string option \<Rightarrow> 'v response \<Rightarrow> ('v, frow) crawler_state \<Rightarrow> ('v, frow) crawler_state" where
  "processPage_nodepth c error res s =
     (case error of
        Some e \<Rightarrow>
          s\<lparr>log := log s @ [LogError ''Error crawling URL:''], done_calls := Suc (done_calls s)\<rparr>
      | None \<Rightarrow>
          (let url = uri res;
               d = rdepth res;
               t = trim (sel_title res);
               ds = map_option trim (sel_description res);
               ps = upsert_page url t ds (html res) (pages s);
               q1 = mark_uri url (frontier s);
               q2 = (if depth_below d (maxDepth c)
                     then queueUrls_select (extract_links c (anchors res)) q1 else q1)
           in s\<lparr>pages := ps, frontier := q2, log := log s @ [LogInfo ''Crawled URL:''],
                done_calls := Suc (done_calls s)\<rparr>))"

text \<open>
  The links of \<open>crawl\<close> in \<open>src/WebCrawler.ts\<close> are the anchors matching the selector
  \<^verbatim>\<open>"a[href^=" + this.targetUrl + "]"\<close>. The target URL is put into the selector without
  quotes, and the selector engine of the HTML library, which is not part of the
  repository, reads an unquoted attribute value as a name: letters, digits, \<open>_\<close> and
  \<open>-\<close>. So
  \<^item> with the empty target URL the value is empty and the selector matches nothing;
  \<^item> with a target URL of name characters only, it matches the anchors whose href starts
    with the target URL;
  \<^item> with a target URL that holds one of the other characters of a URL, such as \<open>:\<close>
    or \<open>/\<close>, the selector is malformed and the engine throws a SyntaxError;
  \<^item> a target URL with a quote, a backslash, a bracket, \<open>#\<close>, white space or a byte
    that is not ASCII is read in yet another way, which the model leaves out (\<open>None\<close>).
\<close>

definition name_char :: "char \<Rightarrow> bool" where
  "name_char ch \<longleftrightarrow>
     ch \<in> set ''abcdefghijklmnopqrstuvwxyzABCDEFGHIJKLMNOPQRSTUVWXYZ0123456789_-''"

definition url_punct :: "char \<Rightarrow> bool" where
  "url_punct ch \<longleftrightarrow> ch \<in> set '':/.?=&%~+,;@!$()*''"

datatype selection = Matched "string list" | Malformed

definition selector_links :: "config \<Rightarrow> string option list \<Rightarrow> selection option" where
  "selector_links c as =
     (let t = targetUrl c
      in if t = [] then Some (Matched [])
         else if list_all name_char t
           then Some (Matched (filter (prefix t) (List.map_filter (\<lambda>h. h) as)))
         else if list_all (\<lambda>ch. name_char ch \<or> url_punct ch) t then Some Malformed
         else None)"

text \<open>Each link that is not empty is queued by a call of \<open>queueUrls\<close> of its own.\<close>

fun queue_each :: "string list \<Rightarrow> frow list \<Rightarrow> frow list option" where
  "queue_each [] q = Some q"
| "queue_each (link # links) q =
     (if link \<noteq> []
      then (case queueUrls_ignore [link] q of None \<Rightarrow> None | Some q' \<Rightarrow> queue_each links q')
      else queue_each links q)"

text \<open>
  \<open>getNextUrl\<close> runs
  \<^verbatim>\<open>SELECT url FROM queue WHERE is_crawled = false LIMIT 1 FOR UPDATE\<close>
  (the first such row in the order of the table) and binds \<open>row\<close> by
  \<^verbatim>\<open>const [row] = await conn.query(...)\<close>. The driver resolves to the pair of the rows and
  the fields, so \<open>row\<close> is the array of the result rows, and \<open>row[this.urlColumnName]\<close>
  is a property of that array: its length, an element when the name is an index, a member
  that every array inherits, and undefined otherwise. The inherited names are those of
  ECMAScript 2023.
\<close>

datatype js_value = JUndefined | JNull | JNumber nat | JRow result_row | JInherited string

definition truthy :: "js_value \<Rightarrow> bool" where
  "truthy v =
     (case v of JUndefined \<Rightarrow> False | JNull \<Rightarrow> False | JNumber n \<Rightarrow> n \<noteq> 0
      | JRow r \<Rightarrow> True | JInherited name \<Rightarrow> True)"

definition inherited_names :: "string list" where
  "inherited_names =
     [''at'', ''concat'', ''constructor'', ''copyWithin'', ''entries'', ''every'', ''fill'',
      ''filter'', ''find'', ''findIndex'', ''findLast'', ''findLastIndex'', ''flat'',
      ''flatMap'', ''forEach'', ''includes'', ''indexOf'', ''join'', ''keys'',
      ''lastIndexOf'', ''map'', ''pop'', ''push'', ''reduce'', ''reduceRight'', ''reverse'',
      ''shift'', ''slice'', ''some'', ''sort'', ''splice'', ''toLocaleString'',
      ''toReversed'', ''toSorted'', ''toSpliced'', ''toString'', ''unshift'', ''values'',
      ''with'', ''__defineGetter__'', ''__defineSetter__'', ''__lookupGetter__'',
      ''__lookupSetter__'', ''__proto__'', ''hasOwnProperty'', ''isPrototypeOf'',
      ''propertyIsEnumerable'', ''valueOf'']"

definition digit :: "char \<Rightarrow> bool" where
  "digit ch \<longleftrightarrow> ch \<in> set ''0123456789''"

definition array_index :: "string \<Rightarrow> nat option" where
  "array_index name =
     (if name = ''0'' then Some 0
      else if name \<noteq> [] \<and> list_all digit name \<and> hd name \<noteq> CHR ''0''
        then Some (fold (\<lambda>ch n. 10 * n + (of_char ch - 48)) name 0)
      else None)"

definition array_prop :: "result_row list \<Rightarrow> string \<Rightarrow> js_value" where
  "array_prop rows name =
     (if name = ''length'' then JNumber (length rows)
      else case array_index name of
             Some i \<Rightarrow> if i < length rows then JRow (rows ! i) else JUndefined
           | None \<Rightarrow> if name \<in> set inherited_names then JInherited name else JUndefined)"

definition getNextUrl_select :: "config \<Rightarrow> frow list \<Rightarrow> result_row list" where
  "getNextUrl_select c q =
     map (\<lambda>r. [(urlColumnName c, SText (qurl r))]) (take 1 (filter (\<lambda>r. \<not> is_crawled r) q))"

definition getNextUrl :: "config \<Rightarrow> frow list \<Rightarrow> js_value" where
  "getNextUrl c q =
     (let row = getNextUrl_select c q;
          v = array_prop row (urlColumnName c)
      in if truthy v then v else JNull)"

text \<open>
  The state of \<open>crawl\<close> holds, beside the tables, the log and the calls of \<open>done\<close>,
  the values handed to the fetch library by \<open>this.crawler.queue\<close>.
\<close>

record ('v, 'r) crawl_state = "('v, 'r) crawler_state" +
  handed :: "js_value list"

datatype js_exception = SyntaxError | JsError string

text \<open>
  The branch of \<open>crawl\<close> for a response without error, through the call of
  \<open>markUrlAsCrawled\<close>. The result is the state and the exception thrown, if any; it is
  \<open>None\<close> where the model leaves the selector out, or when a statement built from a
  link is not the intended one. The calls of \<open>queueUrls\<close> are not awaited; their
  statements are taken to run in the order they are issued, before the statement of
  \<open>markUrlAsCrawled\<close>.
\<close>

definition crawl_page ::
  "config \<Rightarrow> 'v response \<Rightarrow> ('v, frow) crawl_state
     \<Rightarrow> (('v, frow) crawl_state \<times> js_exception option) option" where
  "crawl_page c res s =
     (let s1 = s\<lparr>log := log s @ [LogInfo ''Crawled'']\<rparr>;
          url = uri res;
          ps = insert_on_duplicate url (sel_title res) (sel_description res) (body res) (pages s1);
          s2 = s1\<lparr>pages := ps\<rparr>;
          after_links = (\<lambda>q.
            case url of
              UriOther v \<Rightarrow> Some (s2\<lparr>frontier := q\<rparr>, Some (JsError ''url is not string''))
            | UriString str \<Rightarrow> Some (s2\<lparr>frontier := markUrlAsCrawled str q\<rparr>, None))
      in if depth_below (rdepth res) (maxDepth c)
         then (case selector_links c (anchors res) of
                 None \<Rightarrow> None
               | Some Malformed \<Rightarrow> Some (s2, Some SyntaxError)
               | Some (Matched links) \<Rightarrow>
                   (case queue_each links (frontier s2) of
                      None \<Rightarrow> None
                    | Some q \<Rightarrow> after_links q))
         else after_links (frontier s2))"

text \<open>
  \<open>crawl\<close>, the callback of \<open>src/WebCrawler.ts\<close>: the error is printed, or the page
  is handled; unless an exception was thrown, \<open>done\<close> is called, the next URL is read
  and, when the value read is truthy, handed to the fetch library.
\<close>

definition crawl ::
  "config \<Rightarrow> string option \<Rightarrow> 'v response \<Rightarrow> ('v, frow) crawl_state
     \<Rightarrow> (('v, frow) crawl_state \<times> js_exception option) option" where
  "crawl c error res s =
     (case (case error of
              Some e \<Rightarrow> Some (s\<lparr>log := log s @ [LogError e]\<rparr>, None)
            | None \<Rightarrow> crawl_page c res s) of
        None \<Rightarrow> None
      | Some (s1, Some ex) \<Rightarrow> Some (s1, Some ex)
      | Some (s1, None) \<Rightarrow>
          (let s2 = s1\<lparr>done_calls := Suc (done_calls s1)\<rparr>;
               nextUrl = getNextUrl c (frontier s2)
           in Some (if truthy nextUrl then s2\<lparr>handed := handed s2 @ [nextUrl]\<rparr> else s2,
                    None)))"

section \<open>What an operation may do to the rows of the queue\<close>

text \<open>
  A row is kept when its id, URL and depth are as before and its flag has not gone back
  from crawled to not crawled. A table is preserved when every old row is kept, in its
  place; new rows come after the old ones.
\<close>

definition row_kept :: "qrow \<Rightarrow> qrow \<Rightarrow> bool" where
  "row_kept r r' \<longleftrightarrow>
     qid r' = qid r \<and> qurl r' = qurl r \<and> depth r' = depth r \<and> (is_crawled r \<longrightarrow> is_crawled r')"

definition frow_kept :: "frow \<Rightarrow> frow \<Rightarrow> bool" where
  "frow_kept r r' \<longleftrightarrow> qid r' = qid r \<and> qurl r' = qurl r \<and> (is_crawled r \<longrightarrow> is_crawled r')"

definition rows_preserved :: "('r \<Rightarrow> 'r \<Rightarrow> bool) \<Rightarrow> 'r list \<Rightarrow> 'r list \<Rightarrow> bool" where
  "rows_preserved kept q q' \<longleftrightarrow> length q \<le> length q' \<and> list_all2 kept q (take (length q) q')"

section \<open>Claiming\<close>

lemma dequeueUrl_undefined:
  "urlColumnName c \<noteq> ''id'' \<Longrightarrow> snd (dequeueUrl c q) = None"
  by (cases "select_order (maxDepth c) q")
     (simp_all add: dequeueUrl_def dequeue_select_def row_prop_def Let_def)

lemma set_select_order: "set (select_order md q) = {r \<in> set q. eligible md r}"
  by (simp add: select_order_def)

lemma select_order_first:
  assumes "select_order md q = r # rs"
  shows "r \<in> set q \<and> eligible md r
    \<and> (\<forall>r' \<in> set q. eligible md r' \<longrightarrow> (depth r, qid r) \<le> (depth r', qid r'))"
proof -
  have "sorted (map (\<lambda>r. (depth r, qid r)) (select_order md q))"
    unfolding select_order_def by (rule sorted_sort_key)
  with assms have le: "\<forall>x \<in> set (r # rs). (depth r, qid r) \<le> (depth x, qid x)"
    by auto
  have s: "set (r # rs) = {r \<in> set q. eligible md r}"
    using set_select_order [of md q] assms by simp
  then have "r \<in> {r \<in> set q. eligible md r}" by auto
  with le s show ?thesis by blast
qed

lemma dequeueUrl_marks_first:
  assumes "select_order (maxDepth c) q = r # rs"
  shows "fst (dequeueUrl c q) = dequeue_update [Some (SInt (int (qid r)))] q"
  using assms by (simp add: dequeueUrl_def dequeue_select_def row_prop_def Let_def)

lemma dequeueUrl_none_eligible:
  assumes "\<forall>r \<in> set q. \<not> eligible (maxDepth c) r"
  shows "dequeueUrl c q = (q, None)"
proof -
  have "set (select_order (maxDepth c) q) = {}"
    using assms by (auto simp: set_select_order)
  then show ?thesis
    by (simp add: dequeueUrl_def dequeue_select_def Let_def)
qed

lemma length_filter_map_le:
  assumes "\<And>x. x \<in> set xs \<Longrightarrow> P (f x) \<Longrightarrow> P x"
  shows "length (filter P (map f xs)) \<le> length (filter P xs)"
  using assms by (induction xs) auto

lemma length_filter_map_less:
  assumes "\<And>x. x \<in> set xs \<Longrightarrow> P (f x) \<Longrightarrow> P x"
    and "r \<in> set xs" and "P r" and "\<not> P (f r)"
  shows "length (filter P (map f xs)) < length (filter P xs)"
  using assms
proof (induction xs)
  case Nil
  then show ?case by simp
next
  case (Cons a xs)
  have le: "length (filter P (map f xs)) \<le> length (filter P xs)"
    by (rule length_filter_map_le) (simp add: Cons.prems(1))
  show ?case
  proof (cases "a = r")
    case True
    with Cons.prems(3,4) le show ?thesis by simp
  next
    case False
    with Cons.prems(2) have "r \<in> set xs" by simp
    then have "length (filter P (map f xs)) < length (filter P xs)"
      using Cons.IH Cons.prems(1,3,4) by simp
    moreover have "P (f a) \<Longrightarrow> P a" using Cons.prems(1) by simp
    ultimately show ?thesis by auto
  qed
qed

lemma dequeueUrl_fewer_eligible:
  assumes "dequeueUrl c q = (q', Some url)"
  shows "length (filter (eligible (maxDepth c)) q') < length (filter (eligible (maxDepth c)) q)"
proof (cases "select_order (maxDepth c) q")
  case Nil
  with assms show ?thesis
    by (simp add: dequeueUrl_def dequeue_select_def Let_def)
next
  case (Cons r rs)
  then have r: "r \<in> set q" "eligible (maxDepth c) r"
    using select_order_first [OF Cons] by simp_all
  from Cons assms have q': "q' = dequeue_update [Some (SInt (int (qid r)))] q"
    using dequeueUrl_marks_first [OF Cons] by (metis fst_conv)
  show ?thesis
    unfolding q' dequeue_update_def
  proof (rule length_filter_map_less [where r = r])
    show "r \<in> set q" by (rule r(1))
    show "eligible (maxDepth c) r" by (rule r(2))
    show "\<not> eligible (maxDepth c)
        (if Some (SInt (int (qid r))) \<in> set [Some (SInt (int (qid r)))]
         then r\<lparr>is_crawled := True\<rparr> else r)"
      by (simp add: eligible_def)
    show "eligible (maxDepth c)
        (if Some (SInt (int (qid x))) \<in> set [Some (SInt (int (qid r)))]
         then x\<lparr>is_crawled := True\<rparr> else x) \<Longrightarrow> eligible (maxDepth c) x" for x
      by (simp add: eligible_def split: if_splits)
  qed
qed

lemma start_loop_undefined:
  assumes "urlColumnName c \<noteq> ''id''"
  shows "start_loop c q given = (fst (dequeueUrl c q), given)"
  using dequeueUrl_undefined [OF assms, of q]
  by (cases "dequeueUrl c q") (simp del: start_loop.simps add: start_loop.simps [of c q given])

lemma start_hands_over_nothing:
  assumes "urlColumnName c \<noteq> ''id''"
  shows "snd (snd (start c q)) = []"
  by (simp add: start_def start_loop_undefined [OF assms] case_prod_beta del: start_loop.simps)

text \<open>
  C1. \<open>dequeueUrl\<close> is to pick the first unclaimed row with depth at most \<open>maxDepth\<close>
  in the order (depth, id), mark it claimed and return its URL, and to return nothing
  when there is no such row. The row is picked and marked as described
  (\<open>select_order_first\<close>, \<open>dequeueUrl_marks_first\<close>, \<open>dequeueUrl_none_eligible\<close>),
  but its URL is not returned: on a queue holding the single unclaimed row 1 for
  \<open>https://example.com\<close> at depth 0, with \<open>maxDepth = 3\<close> and the URL column named
  \<open>url\<close>, row 1 is marked and the result is \<open>undefined\<close>, since the selected rows
  hold the column \<open>id\<close> only. The loop of \<open>start\<close> therefore ends at once and hands
  no URL to the fetch library (\<open>start_hands_over_nothing\<close>).
\<close>

theorem dequeueUrl_claims_but_returns_undefined:
  "dequeueUrl \<lparr>targetUrl = ''https://example.com'', maxDepth = 3, urlColumnName = ''url''\<rparr>
     [\<lparr>qid = 1, qurl = ''https://example.com'', is_crawled = False, depth = 0\<rparr>]
   = ([\<lparr>qid = 1, qurl = ''https://example.com'', is_crawled = True, depth = 0\<rparr>], None)"
  by (simp add: dequeueUrl_def dequeue_select_def dequeue_update_def select_order_def
      eligible_def row_prop_def Let_def)

lemma sequential_calls_are_dequeueUrl:
  "\<exists>ids. run_calls c [First, First] (Ready, b, q)
     = (Finished ids (snd (dequeueUrl c q)), b, fst (dequeueUrl c q))"
  by (cases "select_order (maxDepth c) q")
     (simp_all add: call_step_def dequeueUrl_def dequeue_select_def Let_def)

lemma sequential_example:
  "run_calls \<lparr>targetUrl = ''https://example.com'', maxDepth = 3, urlColumnName = ''url''\<rparr>
     [First, First, Second, Second]
     (Ready, Ready, [\<lparr>qid = 1, qurl = ''https://example.com'', is_crawled = False, depth = 0\<rparr>])
   = (Finished [Some (SInt 1)] None, Finished [] None,
      [\<lparr>qid = 1, qurl = ''https://example.com'', is_crawled = True, depth = 0\<rparr>])"
  by (simp add: call_step_def dequeue_select_def dequeue_update_def select_order_def
      eligible_def row_prop_def Let_def)

lemma interleaved_calls_same_ids:
  assumes "select_order (maxDepth c) q = r # rs"
  shows "run_calls c [First, Second, First, Second] (Ready, Ready, q)
     = (Finished [Some (SInt (int (qid r)))] (row_prop [(''id'', SInt (int (qid r)))] (urlColumnName c)),
        Finished [Some (SInt (int (qid r)))] (row_prop [(''id'', SInt (int (qid r)))] (urlColumnName c)),
        dequeue_update [Some (SInt (int (qid r)))] (dequeue_update [Some (SInt (int (qid r)))] q))"
  using assms by (simp add: call_step_def dequeue_select_def row_prop_def Let_def)

text \<open>
  C2. Two concurrent invocations of \<open>dequeueUrl\<close> are never to claim the same row,
  the SELECT and the UPDATE behaving as one atomic step. With the statements of the two
  invocations interleaved (SELECT, SELECT, UPDATE, UPDATE) on a queue holding the single
  unclaimed row 1, both invocations select row 1 and both mark it; so it is on every
  queue with an eligible row (\<open>interleaved_calls_same_ids\<close>).
\<close>

theorem interleaved_dequeueUrl_claims_same_row:
  "run_calls \<lparr>targetUrl = ''https://example.com'', maxDepth = 3, urlColumnName = ''url''\<rparr>
     [First, Second, First, Second]
     (Ready, Ready, [\<lparr>qid = 1, qurl = ''https://example.com'', is_crawled = False, depth = 0\<rparr>])
   = (Finished [Some (SInt 1)] None, Finished [Some (SInt 1)] None,
      [\<lparr>qid = 1, qurl = ''https://example.com'', is_crawled = True, depth = 0\<rparr>])"
  by (simp add: call_step_def dequeue_select_def dequeue_update_def select_order_def
      eligible_def row_prop_def Let_def)

section \<open>Enqueueing\<close>

lemma insert_queue_no_other: "insert_queue u d q = Inl e \<Longrightarrow> e = ER_DUP_ENTRY"
  by (auto simp: insert_queue_def split: if_splits)

lemma queueUrls_loop_append:
  "\<exists>ext lg. queueUrls_loop us q = (Inr (q @ ext), lg)
     \<and> (\<forall>r\<in>set ext. depth r = 0 \<and> \<not> is_crawled r \<and> qurl r \<in> set us)"
proof (induction us arbitrary: q)
  case Nil
  then show ?case by simp
next
  case (Cons u us)
  show ?case
  proof (cases "u \<in> set (map qurl q)")
    case True
    with Cons.IH [of q] show ?thesis by (auto simp: insert_queue_def)
  next
    case False
    let ?r = "\<lparr>qid = fresh_id q, qurl = u, is_crawled = False, depth = 0\<rparr>"
    from Cons.IH [of "q @ [?r]"] obtain ext lg where
      "queueUrls_loop us (q @ [?r]) = (Inr ((q @ [?r]) @ ext), lg)"
      "\<forall>r\<in>set ext. depth r = 0 \<and> \<not> is_crawled r \<and> qurl r \<in> set us" by blast
    with False show ?thesis
      by (intro exI [of _ "?r # ext"]) (auto simp: insert_queue_def)
  qed
qed

lemma queueUrls_no_error: "snd (snd (queueUrls us q)) = None"
  using queueUrls_loop_append [of us q] by (auto simp: queueUrls_def)

lemma queueUrls_single_present: "u \<in> set (map qurl q) \<Longrightarrow> queueUrls [u] q = (q, [], None)"
  by (simp add: queueUrls_def insert_queue_def)

lemma queueUrls_single_absent:
  "u \<notin> set (map qurl q) \<Longrightarrow>
   queueUrls [u] q = (q @ [\<lparr>qid = fresh_id q, qurl = u, is_crawled = False, depth = 0\<rparr>],
        [LogInfo (''Queued URL: '' @ u)], None)"
  by (simp add: queueUrls_def insert_queue_def fresh_id_def)

lemma count_key_distinct:
  "distinct (map f xs) \<Longrightarrow> length (filter (\<lambda>r. f r = u) xs) = (if u \<in> f ` set xs then 1 else 0)"
  by (induction xs) auto

lemma count_url_distinct:
  "distinct (map qurl q) \<Longrightarrow> u \<in> set (map qurl q) \<Longrightarrow> length (filter (\<lambda>r. qurl r = u) q) = 1"
  by (simp add: count_key_distinct)

lemma queueUrls_twice:
  assumes "distinct (map qurl q)"
  shows "snd (snd (queueUrls [u] q)) = None
    \<and> queueUrls [u] (fst (queueUrls [u] q)) = (fst (queueUrls [u] q), [], None)
    \<and> length (filter (\<lambda>r. qurl r = u) (fst (queueUrls [u] q))) = 1
    \<and> (u \<in> set (map qurl q) \<longrightarrow> queueUrls [u] q = (q, [], None))"
proof (cases "u \<in> set (map qurl q)")
  case True
  with assms show ?thesis
    by (simp add: queueUrls_single_present count_url_distinct del: set_map)
next
  case False
  let ?q1 = "q @ [\<lparr>qid = fresh_id q, qurl = u, is_crawled = False, depth = 0\<rparr>]"
  have d: "distinct (map qurl ?q1)" using assms False by simp
  have m: "u \<in> set (map qurl ?q1)" by simp
  from False show ?thesis
    using count_url_distinct [OF d m] queueUrls_single_present [OF m]
    by (simp add: queueUrls_single_absent del: set_map)
qed

lemma seed_twice:
  assumes "distinct (map qurl q)"
  shows "fst (seed c (fst (seed c q))) = fst (seed c q)
    \<and> length (filter (\<lambda>r. qurl r = targetUrl c) (fst (seed c q))) = 1
    \<and> (targetUrl c \<in> set (map qurl q) \<longrightarrow> seed c q = (q, [LogError ''Error creating tables:'']))"
  using assms by (auto simp: seed_def insert_queue_def count_key_distinct)

lemma queueUrls_ignore_twice:
  assumes "distinct (map qurl q)" and "sql_safe u"
  shows "queueUrls_ignore [u] q \<noteq> None
    \<and> queueUrls_ignore [u] (the (queueUrls_ignore [u] q)) = queueUrls_ignore [u] q
    \<and> length (filter (\<lambda>r. qurl r = u) (the (queueUrls_ignore [u] q))) = 1
    \<and> (u \<in> set (map qurl q) \<longrightarrow> queueUrls_ignore [u] q = Some q)"
  using assms by (auto simp: queueUrls_ignore_def count_key_distinct)

lemma queueUrls_select_twice:
  assumes "distinct (map qurl q)"
  shows "queueUrls_select [u] (queueUrls_select [u] q) = queueUrls_select [u] q
    \<and> length (filter (\<lambda>r. qurl r = u) (queueUrls_select [u] q)) = 1
    \<and> (u \<in> set (map qurl q) \<longrightarrow> queueUrls_select [u] q = q)"
  using assms by (auto simp: Let_def filter_empty_conv count_key_distinct)

text \<open>
  C3. Enqueueing is idempotent. On a queue whose URLs are distinct (the unique key),
  \<open>queueUrls\<close> with a URL \<open>u\<close> raises no error, a second call with \<open>u\<close> changes
  nothing and logs nothing, there is exactly one row for \<open>u\<close> afterwards, and a URL that
  is already present (claimed or not) leaves the queue as it is. The same holds for the
  version of \<open>queueUrls\<close> that selects before it inserts, and for the INSERT IGNORE of
  \<open>src/WebCrawler.ts\<close> when the URL holds no double quote and no backslash. The seed of
  \<open>createTables\<close> is idempotent on the queue as well and raises nothing; it logs the
  rejected INSERT.
\<close>

theorem enqueue_twice_one_row:
  assumes "distinct (map qurl q)" and "distinct (map qurl f)"
  shows "(snd (snd (queueUrls [u] q)) = None
      \<and> queueUrls [u] (fst (queueUrls [u] q)) = (fst (queueUrls [u] q), [], None)
      \<and> length (filter (\<lambda>r. qurl r = u) (fst (queueUrls [u] q))) = 1
      \<and> (u \<in> set (map qurl q) \<longrightarrow> queueUrls [u] q = (q, [], None)))
    \<and> (fst (seed c (fst (seed c q))) = fst (seed c q)
      \<and> length (filter (\<lambda>r. qurl r = targetUrl c) (fst (seed c q))) = 1
      \<and> (targetUrl c \<in> set (map qurl q) \<longrightarrow> seed c q = (q, [LogError ''Error creating tables:''])))
    \<and> (sql_safe u \<longrightarrow>
        queueUrls_ignore [u] f \<noteq> None
      \<and> queueUrls_ignore [u] (the (queueUrls_ignore [u] f)) = queueUrls_ignore [u] f
      \<and> length (filter (\<lambda>r. qurl r = u) (the (queueUrls_ignore [u] f))) = 1
      \<and> (u \<in> set (map qurl f) \<longrightarrow> queueUrls_ignore [u] f = Some f))
    \<and> (queueUrls_select [u] (queueUrls_select [u] f) = queueUrls_select [u] f
      \<and> length (filter (\<lambda>r. qurl r = u) (queueUrls_select [u] f)) = 1
      \<and> (u \<in> set (map qurl f) \<longrightarrow> queueUrls_select [u] f = f))"
  using queueUrls_twice [OF assms(1), of u] seed_twice [OF assms(1), of c]
    queueUrls_ignore_twice [OF assms(2), of u] queueUrls_select_twice [OF assms(2), of u]
  by blast

theorem enqueue_twice_one_row_witness:
  "distinct (map qurl [\<lparr>qid = 1, qurl = ''https://example.com'', is_crawled = True, depth = 0\<rparr>])
   \<and> distinct (map qurl [\<lparr>qid = 1, qurl = ''https://example.com'', is_crawled = True\<rparr>])
   \<and> sql_safe ''https://example.com''
   \<and> ''https://example.com'' \<in> set (map qurl [\<lparr>qid = 1, qurl = ''https://example.com'', is_crawled = True, depth = 0\<rparr>])
   \<and> queueUrls [''https://example.com'']
         [\<lparr>qid = 1, qurl = ''https://example.com'', is_crawled = True, depth = 0\<rparr>]
       = ([\<lparr>qid = 1, qurl = ''https://example.com'', is_crawled = True, depth = 0\<rparr>], [], None)
   \<and> queueUrls_ignore [''https://example.com'']
         [\<lparr>qid = 1, qurl = ''https://example.com'', is_crawled = True\<rparr>]
       = Some [\<lparr>qid = 1, qurl = ''https://example.com'', is_crawled = True\<rparr>]
   \<and> length (filter (\<lambda>r. qurl r = ''https://example.com/a'')
         (fst (queueUrls [''https://example.com/a'']
           [\<lparr>qid = 1, qurl = ''https://example.com'', is_crawled = True, depth = 0\<rparr>]))) = 1"
proof -
  have d1: "distinct (map qurl [\<lparr>qid = 1, qurl = ''https://example.com'', is_crawled = True, depth = 0\<rparr>])"
    by simp
  have d2: "distinct (map qurl [\<lparr>qid = 1, qurl = ''https://example.com'', is_crawled = True\<rparr>])"
    by simp
  have s: "sql_safe ''https://example.com''"
    by (simp add: sql_safe_def)
  show ?thesis
    using d1 d2 s
      enqueue_twice_one_row [OF d1 d2, of "''https://example.com''"
        "\<lparr>targetUrl = ''https://example.com'', maxDepth = 3, urlColumnName = ''url''\<rparr>"]
      enqueue_twice_one_row [OF d1 d2, of "''https://example.com/a''"
        "\<lparr>targetUrl = ''https://example.com'', maxDepth = 3, urlColumnName = ''url''\<rparr>"]
    by simp
qed

text \<open>
  C4. The links of a page fetched at depth \<open>d < maxDepth\<close> are to be enqueued at depth
  \<open>d + 1\<close>. \<open>queueUrls\<close> binds the depth 0 for every URL (see also
  \<open>queueUrls_loop_append\<close>): for a page fetched at depth 0 with \<open>maxDepth = 3\<close> and one
  link in scope, the new row has depth 0, not 1.
\<close>

theorem processPage_enqueues_links_at_depth_0:
  "frontier (processPage
     \<lparr>targetUrl = ''https://example.com'', maxDepth = 3, urlColumnName = ''url''\<rparr> None
     \<lparr>uri = UriString ''https://example.com'', rdepth = Some 0, sel_title = ''Home'',
      sel_description = None, html = ''<a href=https://example.com/a>a</a>'',
      body = ''<a href=https://example.com/a>a</a>'', anchors = [Some ''https://example.com/a'']\<rparr>
     \<lparr>pages = ([] :: unit uri_value prow list),
      frontier = [\<lparr>qid = 1, qurl = ''https://example.com'', is_crawled = True, depth = 0\<rparr>],
      log = [], done_calls = 0\<rparr>)
   = [\<lparr>qid = 1, qurl = ''https://example.com'', is_crawled = True, depth = 0\<rparr>,
      \<lparr>qid = 2, qurl = ''https://example.com/a'', is_crawled = False, depth = 0\<rparr>]"
  by (simp add: processPage_def depth_below_def extract_links_def
      mark_uri_def markUrlAsCrawled_def queueUrls_def insert_queue_def fresh_id_def Let_def)

section \<open>The page upsert\<close>

lemma upsert_page_absent:
  "u \<notin> set (map purl ps) \<Longrightarrow>
   upsert_page u t d h ps = ps @ [\<lparr>pid = fresh_pid ps, purl = u, title = t, description = d, raw_html = h\<rparr>]"
  by (auto simp: upsert_page_def Let_def filter_empty_conv)

lemma upsert_page_present:
  "u \<in> set (map purl ps) \<Longrightarrow>
   upsert_page u t d h ps =
     map (\<lambda>p. if purl p = u then p\<lparr>title := t, description := d, raw_html := h\<rparr> else p) ps"
  by (auto simp: upsert_page_def Let_def filter_empty_conv)

lemma insert_on_duplicate_eq: "insert_on_duplicate u t d h ps = upsert_page u t d h ps"
  by (auto simp: insert_on_duplicate_def upsert_page_def Let_def filter_empty_conv)

lemma upsert_page_has_url: "u \<in> set (map purl (upsert_page u t d h ps))"
  by (cases "u \<in> set (map purl ps)") (force simp: upsert_page_absent upsert_page_present)+

lemma upsert_page_urls:
  "map purl (upsert_page u t d h ps) = (if u \<in> set (map purl ps) then map purl ps else map purl ps @ [u])"
  by (cases "u \<in> set (map purl ps)") (simp_all add: upsert_page_absent upsert_page_present o_def)

lemma updated_fields:
  assumes "p \<in> set (map (\<lambda>p. if purl p = u then p\<lparr>title := t, description := d, raw_html := h\<rparr> else p) ps)"
    and "purl p = u"
  shows "title p = t \<and> description p = d \<and> raw_html p = h"
proof -
  from assms(1) obtain p0 where
    p: "p = (if purl p0 = u then p0\<lparr>title := t, description := d, raw_html := h\<rparr> else p0)"
    unfolding set_map by (rule imageE)
  show ?thesis
  proof (cases "purl p0 = u")
    case True
    then have "p = p0\<lparr>title := t, description := d, raw_html := h\<rparr>" using p by simp
    then show ?thesis by simp
  next
    case False
    then have "p = p0" using p by simp
    with False assms(2) show ?thesis by simp
  qed
qed

lemma upsert_page_fields:
  assumes "p \<in> set (upsert_page u t d h ps)" and "purl p = u"
  shows "title p = t \<and> description p = d \<and> raw_html p = h"
proof (cases "u \<in> set (map purl ps)")
  case True
  with assms show ?thesis
    unfolding upsert_page_present [OF True] by (rule_tac updated_fields)
next
  case False
  from assms(1) have "p = \<lparr>pid = fresh_pid ps, purl = u, title = t, description = d, raw_html = h\<rparr> \<or> p \<in> set ps"
    unfolding upsert_page_absent [OF False] by simp
  then show ?thesis
  proof
    assume "p = \<lparr>pid = fresh_pid ps, purl = u, title = t, description = d, raw_html = h\<rparr>"
    then show ?thesis by simp
  next
    assume "p \<in> set ps"
    with assms(2) have "u \<in> set (map purl ps)" by force
    with False show ?thesis by contradiction
  qed
qed

lemma upsert_page_twice: "upsert_page u t d h (upsert_page u t d h ps) = upsert_page u t d h ps"
proof -
  have "upsert_page u t d h (upsert_page u t d h ps) =
     map (\<lambda>p. if purl p = u then p\<lparr>title := t, description := d, raw_html := h\<rparr> else p)
       (upsert_page u t d h ps)"
    by (rule upsert_page_present) (rule upsert_page_has_url)
  also have "\<dots> = upsert_page u t d h ps"
    by (rule map_idI) (simp add: upsert_page_fields)
  finally show ?thesis .
qed

lemma upsert_page_others:
  "filter (\<lambda>p. purl p \<noteq> u) (upsert_page u t d h ps) = filter (\<lambda>p. purl p \<noteq> u) ps"
proof (cases "u \<in> set (map purl ps)")
  case True
  have "filter (\<lambda>p. purl p \<noteq> u)
          (map (\<lambda>p. if purl p = u then p\<lparr>title := t, description := d, raw_html := h\<rparr> else p) qs)
        = filter (\<lambda>p. purl p \<noteq> u) qs" for qs :: "'a prow list"
    by (induction qs) auto
  with True show ?thesis by (simp add: upsert_page_present del: set_map)
next
  case False
  then show ?thesis by (simp add: upsert_page_absent del: set_map)
qed

lemma upsert_page_one_row:
  "distinct (map purl ps) \<Longrightarrow> length (filter (\<lambda>p. purl p = u) (upsert_page u t d h ps)) = 1"
proof -
  assume "distinct (map purl ps)"
  then have "distinct (map purl (upsert_page u t d h ps))"
    by (simp add: upsert_page_urls)
  then show ?thesis
    using upsert_page_has_url [of u t d h ps] by (simp add: count_key_distinct)
qed

text \<open>
  C5. The page upsert inserts a row when the URL is absent, and otherwise overwrites title,
  description and raw HTML of the row with this URL. Upserting the same values twice gives
  the table that upserting them once gives; when the URLs of the table are distinct there
  is exactly one row for the URL afterwards, it holds the values upserted, and the rows of
  the other URLs are untouched. The single statement of \<open>src/WebCrawler.ts\<close> and the
  SELECT followed by UPDATE or INSERT of \<open>processPage\<close> have the same effect.
\<close>

theorem page_upsert_idempotent:
  "(u \<notin> set (map purl ps) \<longrightarrow>
      upsert_page u t d h ps
        = ps @ [\<lparr>pid = fresh_pid ps, purl = u, title = t, description = d, raw_html = h\<rparr>])
   \<and> (u \<in> set (map purl ps) \<longrightarrow>
      upsert_page u t d h ps
        = map (\<lambda>p. if purl p = u then p\<lparr>title := t, description := d, raw_html := h\<rparr> else p) ps)
   \<and> upsert_page u t d h (upsert_page u t d h ps) = upsert_page u t d h ps
   \<and> (distinct (map purl ps) \<longrightarrow>
        length (filter (\<lambda>p. purl p = u) (upsert_page u t d h ps)) = 1)
   \<and> (\<forall>p \<in> set (upsert_page u t d h ps).
        purl p = u \<longrightarrow> title p = t \<and> description p = d \<and> raw_html p = h)
   \<and> filter (\<lambda>p. purl p \<noteq> u) (upsert_page u t d h ps) = filter (\<lambda>p. purl p \<noteq> u) ps
   \<and> insert_on_duplicate u t d h ps = upsert_page u t d h ps"
  using upsert_page_absent [of u ps t d h] upsert_page_present [of u ps t d h]
    upsert_page_twice [of u t d h ps] upsert_page_one_row [of ps u t d h]
    upsert_page_fields [of _ u t d h ps] upsert_page_others [of u t d h ps]
    insert_on_duplicate_eq [of u t d h ps]
  by blast

theorem page_upsert_idempotent_witness:
  "distinct (map purl [\<lparr>pid = 1, purl = ''https://example.com'', title = ''Old'', description = None, raw_html = ''<html/>''\<rparr>])
   \<and> ''https://example.com'' \<in> set (map purl [\<lparr>pid = 1, purl = ''https://example.com'', title = ''Old'', description = None, raw_html = ''<html/>''\<rparr>])
   \<and> upsert_page ''https://example.com'' ''New'' (Some ''d'') ''<p/>''
        [\<lparr>pid = 1, purl = ''https://example.com'', title = ''Old'', description = None, raw_html = ''<html/>''\<rparr>]
       = [\<lparr>pid = 1, purl = ''https://example.com'', title = ''New'', description = Some ''d'', raw_html = ''<p/>''\<rparr>]
   \<and> ''https://example.com/a'' \<notin> set (map purl [\<lparr>pid = 1, purl = ''https://example.com'', title = ''Old'', description = None, raw_html = ''<html/>''\<rparr>])
   \<and> length (filter (\<lambda>p. purl p = ''https://example.com/a'')
        (upsert_page ''https://example.com/a'' ''New'' (Some ''d'') ''<p/>''
          [\<lparr>pid = 1, purl = ''https://example.com'', title = ''Old'', description = None, raw_html = ''<html/>''\<rparr>])) = 1"
  using page_upsert_idempotent [of "''https://example.com''"
      "[\<lparr>pid = 1, purl = ''https://example.com'', title = ''Old'', description = None, raw_html = ''<html/>''\<rparr>]"
      "''New''" "Some ''d''" "''<p/>''"]
    page_upsert_idempotent [of "''https://example.com/a''"
      "[\<lparr>pid = 1, purl = ''https://example.com'', title = ''Old'', description = None, raw_html = ''<html/>''\<rparr>]"
      "''New''" "Some ''d''" "''<p/>''"]
  by simp

section \<open>The depth limit and the links\<close>

lemma markUrlAsCrawled_urls [simp]: "map qurl (markUrlAsCrawled u q) = map qurl q"
  by (induction q) (simp_all add: markUrlAsCrawled_def)

lemma mark_uri_urls [simp]: "map qurl (mark_uri u q) = map qurl q"
  by (cases u) (simp_all add: mark_uri_def)

lemma set_map_filter_id: "set (List.map_filter (\<lambda>h. h) as) = {h. Some h \<in> set as}"
  by (induction as) (auto split: option.splits)

lemma set_extract_links:
  "set (extract_links c as) = {h. Some h \<in> set as \<and> h \<noteq> [] \<and> prefix (targetUrl c) h}"
  by (auto simp: extract_links_def set_map_filter_id)

lemma queueUrls_urls:
  "set (map qurl (fst (queueUrls us q))) \<subseteq> set (map qurl q) \<union> set us"
  using queueUrls_loop_append [of us q] by (auto simp: queueUrls_def)

lemma processPage_frontier_urls:
  "set (map qurl (frontier (processPage c None res s)))
     \<subseteq> set (map qurl (frontier s)) \<union> set (extract_links c (anchors res))"
proof (cases "depth_below (rdepth res) (maxDepth c)")
  case True
  then have "frontier (processPage c None res s)
      = fst (queueUrls (extract_links c (anchors res)) (mark_uri (uri res) (frontier s)))"
    by (simp add: processPage_def Let_def case_prod_beta)
  then show ?thesis
    using queueUrls_urls [of "extract_links c (anchors res)" "mark_uri (uri res) (frontier s)"]
    by simp
next
  case False
  then have "frontier (processPage c None res s) = mark_uri (uri res) (frontier s)"
    by (simp add: processPage_def Let_def case_prod_beta)
  then show ?thesis by simp
qed

lemma processPage_at_limit:
  assumes "\<not> depth_below (rdepth res) (maxDepth c)"
  shows "pages (processPage c None res s)
       = upsert_page (uri res) (trim (sel_title res)) (map_option trim (sel_description res))
           (html res) (pages s)
     \<and> frontier (processPage c None res s) = mark_uri (uri res) (frontier s)"
  using assms by (simp add: processPage_def Let_def case_prod_beta)

lemma processPage_pages:
  "pages (processPage c None res s)
       = upsert_page (uri res) (trim (sel_title res)) (map_option trim (sel_description res))
           (html res) (pages s)"
  by (simp add: processPage_def Let_def case_prod_beta)

lemma depth_below_iff: "depth_below d md \<longleftrightarrow> (\<exists>x. d = Some x \<and> x < md)"
  by (cases d) (simp_all add: depth_below_def)

lemma crawl_page_at_limit:
  assumes "\<not> depth_below (rdepth res) (maxDepth c)"
  shows "crawl_page c res s =
     (case uri res of
        UriOther v \<Rightarrow>
          Some (s\<lparr>log := log s @ [LogInfo ''Crawled''],
                  pages := insert_on_duplicate (uri res) (sel_title res) (sel_description res)
                    (body res) (pages s)\<rparr>,
                Some (JsError ''url is not string''))
      | UriString str \<Rightarrow>
          Some (s\<lparr>log := log s @ [LogInfo ''Crawled''],
                  pages := insert_on_duplicate (uri res) (sel_title res) (sel_description res)
                    (body res) (pages s),
                  frontier := markUrlAsCrawled str (frontier s)\<rparr>, None))"
  using assms by (cases "uri res") (simp_all add: crawl_page_def Let_def)

lemma crawl_at_limit:
  assumes "\<not> depth_below (rdepth res) (maxDepth c)"
  shows "\<exists>s' ex. crawl c None res f = Some (s', ex)
     \<and> pages s' = insert_on_duplicate (uri res) (sel_title res) (sel_description res) (body res) (pages f)
     \<and> map qurl (frontier s') = map qurl (frontier f)"
  by (cases "uri res")
     (simp_all add: crawl_def crawl_page_at_limit [OF assms] Let_def)

lemma crawl_new_urls_below:
  assumes "crawl c None res f = Some (s', ex)"
    and "map qurl (frontier s') \<noteq> map qurl (frontier f)"
  shows "depth_below (rdepth res) (maxDepth c)"
proof (rule ccontr)
  assume "\<not> depth_below (rdepth res) (maxDepth c)"
  from crawl_at_limit [OF this, of f] assms show False by auto
qed

lemma queueUrls_select_urls:
  "set (map qurl (queueUrls_select us q)) \<subseteq> set (map qurl q) \<union> set us"
proof (induction us arbitrary: q)
  case Nil
  then show ?case by simp
next
  case (Cons u us)
  show ?case
  proof (cases "filter (\<lambda>r. qurl r = u) q = []")
    case True
    then show ?thesis
      using Cons.IH [of "q @ [\<lparr>qid = fresh_id q, qurl = u, is_crawled = False\<rparr>]"]
      by (auto simp: Let_def)
  next
    case False
    then show ?thesis using Cons.IH [of q] by (auto simp: Let_def)
  qed
qed

lemma processPage_nodepth_at_limit:
  assumes "\<not> depth_below (rdepth res) (maxDepth c)"
  shows "pages (processPage_nodepth c None res s)
       = upsert_page (uri res) (trim (sel_title res)) (map_option trim (sel_description res))
           (html res) (pages s)
     \<and> frontier (processPage_nodepth c None res s) = mark_uri (uri res) (frontier s)"
  using assms by (simp add: processPage_nodepth_def Let_def)

lemma processPage_nodepth_pages:
  "pages (processPage_nodepth c None res s)
       = upsert_page (uri res) (trim (sel_title res)) (map_option trim (sel_description res))
           (html res) (pages s)"
  by (simp add: processPage_nodepth_def Let_def)

lemma processPage_nodepth_frontier_urls:
  "set (map qurl (frontier (processPage_nodepth c None res s)))
     \<subseteq> set (map qurl (frontier s)) \<union> set (extract_links c (anchors res))"
proof (cases "depth_below (rdepth res) (maxDepth c)")
  case True
  then have "frontier (processPage_nodepth c None res s)
      = queueUrls_select (extract_links c (anchors res)) (mark_uri (uri res) (frontier s))"
    by (simp add: processPage_nodepth_def Let_def)
  then show ?thesis
    using queueUrls_select_urls [of "extract_links c (anchors res)" "mark_uri (uri res) (frontier s)"]
    by simp
next
  case False
  then have "frontier (processPage_nodepth c None res s) = mark_uri (uri res) (frontier s)"
    by (simp add: processPage_nodepth_def Let_def)
  then show ?thesis by simp
qed

lemma processPage_at_maxDepth:
  assumes "rdepth res = Some (maxDepth c)"
  shows "pages (processPage c None res s)
        = upsert_page (uri res) (trim (sel_title res)) (map_option trim (sel_description res))
            (html res) (pages s)
    \<and> uri res \<in> set (map purl (pages (processPage c None res s)))
    \<and> frontier (processPage c None res s) = mark_uri (uri res) (frontier s)
    \<and> map qurl (frontier (processPage c None res s)) = map qurl (frontier s)"
proof -
  from assms have nb: "\<not> depth_below (rdepth res) (maxDepth c)" by (simp add: depth_below_def)
  have "uri res \<in> set (map purl (pages (processPage c None res s)))"
    unfolding processPage_pages by (rule upsert_page_has_url)
  moreover have "frontier (processPage c None res s) = mark_uri (uri res) (frontier s)"
    using processPage_at_limit [OF nb] by blast
  ultimately show ?thesis by (simp add: processPage_pages)
qed

lemma processPage_new_url_below:
  assumes "map qurl (frontier (processPage c None res s)) \<noteq> map qurl (frontier s)"
  shows "\<exists>d. rdepth res = Some d \<and> d < maxDepth c"
proof -
  have "depth_below (rdepth res) (maxDepth c)"
    using assms processPage_at_limit [of res c s]
    by (cases "depth_below (rdepth res) (maxDepth c)") auto
  then show ?thesis by (simp add: depth_below_iff)
qed

lemma processPage_nodepth_at_maxDepth:
  assumes "rdepth res = Some (maxDepth c)"
  shows "pages (processPage_nodepth c None res s)
        = upsert_page (uri res) (trim (sel_title res)) (map_option trim (sel_description res))
            (html res) (pages s)
    \<and> uri res \<in> set (map purl (pages (processPage_nodepth c None res s)))
    \<and> frontier (processPage_nodepth c None res s) = mark_uri (uri res) (frontier s)
    \<and> map qurl (frontier (processPage_nodepth c None res s)) = map qurl (frontier s)"
proof -
  from assms have nb: "\<not> depth_below (rdepth res) (maxDepth c)" by (simp add: depth_below_def)
  have "uri res \<in> set (map purl (pages (processPage_nodepth c None res s)))"
    unfolding processPage_nodepth_pages by (rule upsert_page_has_url)
  moreover have "frontier (processPage_nodepth c None res s) = mark_uri (uri res) (frontier s)"
    using processPage_nodepth_at_limit [OF nb] by blast
  ultimately show ?thesis by (simp add: processPage_nodepth_pages)
qed

lemma processPage_nodepth_new_url_below:
  assumes "map qurl (frontier (processPage_nodepth c None res s)) \<noteq> map qurl (frontier s)"
  shows "\<exists>d. rdepth res = Some d \<and> d < maxDepth c"
proof -
  have "depth_below (rdepth res) (maxDepth c)"
    using assms processPage_nodepth_at_limit [of res c s]
    by (cases "depth_below (rdepth res) (maxDepth c)") auto
  then show ?thesis by (simp add: depth_below_iff)
qed

lemma crawl_at_maxDepth:
  assumes "rdepth res = Some (maxDepth c)"
  shows "\<exists>s' ex. crawl c None res f = Some (s', ex)
          \<and> pages s' = insert_on_duplicate (uri res) (sel_title res) (sel_description res)
                (body res) (pages f)
          \<and> uri res \<in> set (map purl (pages s'))
          \<and> map qurl (frontier s') = map qurl (frontier f)"
proof -
  from assms have nb: "\<not> depth_below (rdepth res) (maxDepth c)" by (simp add: depth_below_def)
  from crawl_at_limit [OF nb, of f] obtain s' ex where
    c: "crawl c None res f = Some (s', ex)"
    and p: "pages s' = insert_on_duplicate (uri res) (sel_title res) (sel_description res) (body res) (pages f)"
    and q: "map qurl (frontier s') = map qurl (frontier f)" by blast
  have "uri res \<in> set (map purl (pages s'))"
    unfolding p insert_on_duplicate_eq by (rule upsert_page_has_url)
  with c p q show ?thesis by blast
qed

lemma crawl_new_url_below:
  assumes "crawl c None res f = Some (s', ex) \<and> map qurl (frontier s') \<noteq> map qurl (frontier f)"
  shows "\<exists>d. rdepth res = Some d \<and> d < maxDepth c"
proof -
  have "depth_below (rdepth res) (maxDepth c)"
    using assms crawl_new_urls_below by blast
  then show ?thesis by (simp add: depth_below_iff)
qed

text \<open>
  C6. A row at depth \<open>maxDepth\<close> is still eligible for \<open>dequeueUrl\<close>. A page
  fetched at depth \<open>maxDepth\<close> is persisted, and none of its links is enqueued: the
  queue keeps its URLs, the only change being the mark on the URL of the page. Whenever a
  callback adds a URL to the queue, the depth of the response is below \<open>maxDepth\<close>.
  This holds for \<open>processPage\<close> in both versions and for \<open>crawl\<close>.
\<close>

theorem links_enqueued_only_below_maxDepth:
  "(\<not> is_crawled r \<and> depth r = maxDepth c \<longrightarrow> eligible (maxDepth c) r)
   \<and> (rdepth res = Some (maxDepth c) \<longrightarrow>
      pages (processPage c None res s)
        = upsert_page (uri res) (trim (sel_title res)) (map_option trim (sel_description res))
            (html res) (pages s)
    \<and> uri res \<in> set (map purl (pages (processPage c None res s)))
    \<and> frontier (processPage c None res s) = mark_uri (uri res) (frontier s)
    \<and> map qurl (frontier (processPage c None res s)) = map qurl (frontier s))
   \<and> (map qurl (frontier (processPage c None res s)) \<noteq> map qurl (frontier s) \<longrightarrow>
        (\<exists>d. rdepth res = Some d \<and> d < maxDepth c))
   \<and> (rdepth res = Some (maxDepth c) \<longrightarrow>
      pages (processPage_nodepth c None res n)
        = upsert_page (uri res) (trim (sel_title res)) (map_option trim (sel_description res))
            (html res) (pages n)
    \<and> uri res \<in> set (map purl (pages (processPage_nodepth c None res n)))
    \<and> frontier (processPage_nodepth c None res n) = mark_uri (uri res) (frontier n)
    \<and> map qurl (frontier (processPage_nodepth c None res n)) = map qurl (frontier n))
   \<and> (map qurl (frontier (processPage_nodepth c None res n)) \<noteq> map qurl (frontier n) \<longrightarrow>
        (\<exists>d. rdepth res = Some d \<and> d < maxDepth c))
   \<and> (rdepth res = Some (maxDepth c) \<longrightarrow>
        (\<exists>s' ex. crawl c None res f = Some (s', ex)
          \<and> pages s' = insert_on_duplicate (uri res) (sel_title res) (sel_description res)
                (body res) (pages f)
          \<and> uri res \<in> set (map purl (pages s'))
          \<and> map qurl (frontier s') = map qurl (frontier f)))
   \<and> (\<forall>s' ex. crawl c None res f = Some (s', ex)
          \<and> map qurl (frontier s') \<noteq> map qurl (frontier f) \<longrightarrow>
        (\<exists>d. rdepth res = Some d \<and> d < maxDepth c))"
proof (intro conjI)
  show "\<not> is_crawled r \<and> depth r = maxDepth c \<longrightarrow> eligible (maxDepth c) r"
    by (simp add: eligible_def)
  show "rdepth res = Some (maxDepth c) \<longrightarrow>
      pages (processPage c None res s)
        = upsert_page (uri res) (trim (sel_title res)) (map_option trim (sel_description res))
            (html res) (pages s)
    \<and> uri res \<in> set (map purl (pages (processPage c None res s)))
    \<and> frontier (processPage c None res s) = mark_uri (uri res) (frontier s)
    \<and> map qurl (frontier (processPage c None res s)) = map qurl (frontier s)"
    by (rule impI) (rule processPage_at_maxDepth)
  show "map qurl (frontier (processPage c None res s)) \<noteq> map qurl (frontier s) \<longrightarrow>
        (\<exists>d. rdepth res = Some d \<and> d < maxDepth c)"
    by (rule impI) (rule processPage_new_url_below)
  show "rdepth res = Some (maxDepth c) \<longrightarrow>
      pages (processPage_nodepth c None res n)
        = upsert_page (uri res) (trim (sel_title res)) (map_option trim (sel_description res))
            (html res) (pages n)
    \<and> uri res \<in> set (map purl (pages (processPage_nodepth c None res n)))
    \<and> frontier (processPage_nodepth c None res n) = mark_uri (uri res) (frontier n)
    \<and> map qurl (frontier (processPage_nodepth c None res n)) = map qurl (frontier n)"
    by (rule impI) (rule processPage_nodepth_at_maxDepth)
  show "map qurl (frontier (processPage_nodepth c None res n)) \<noteq> map qurl (frontier n) \<longrightarrow>
        (\<exists>d. rdepth res = Some d \<and> d < maxDepth c)"
    by (rule impI) (rule processPage_nodepth_new_url_below)
  show "rdepth res = Some (maxDepth c) \<longrightarrow>
        (\<exists>s' ex. crawl c None res f = Some (s', ex)
          \<and> pages s' = insert_on_duplicate (uri res) (sel_title res) (sel_description res)
                (body res) (pages f)
          \<and> uri res \<in> set (map purl (pages s'))
          \<and> map qurl (frontier s') = map qurl (frontier f))"
    by (rule impI) (rule crawl_at_maxDepth)
  show "\<forall>s' ex. crawl c None res f = Some (s', ex)
          \<and> map qurl (frontier s') \<noteq> map qurl (frontier f) \<longrightarrow>
        (\<exists>d. rdepth res = Some d \<and> d < maxDepth c)"
    by (intro allI impI) (rule crawl_new_url_below)
qed

theorem links_enqueued_only_below_maxDepth_witness:
  "rdepth \<lparr>uri = UriString ''https://example.com/a'', rdepth = Some 3, sel_title = '' A '',
      sel_description = None, html = ''<html/>'', body = ''<html/>'',
      anchors = [Some ''https://example.com/b'']\<rparr> = Some 3
   \<and> processPage \<lparr>targetUrl = ''https://example.com'', maxDepth = 3, urlColumnName = ''url''\<rparr> None
       \<lparr>uri = UriString ''https://example.com/a'', rdepth = Some 3, sel_title = '' A '',
        sel_description = None, html = ''<html/>'', body = ''<html/>'',
        anchors = [Some ''https://example.com/b'']\<rparr>
       \<lparr>pages = ([] :: unit uri_value prow list),
        frontier = [\<lparr>qid = 1, qurl = ''https://example.com/a'', is_crawled = False, depth = 0\<rparr>],
        log = [], done_calls = 0\<rparr>
     = \<lparr>pages = [\<lparr>pid = 1, purl = UriString ''https://example.com/a'', title = ''A'',
                   description = None, raw_html = ''<html/>''\<rparr>],
        frontier = [\<lparr>qid = 1, qurl = ''https://example.com/a'', is_crawled = True, depth = 0\<rparr>],
        log = [LogInfo ''Crawled URL:''], done_calls = 1\<rparr>
   \<and> map qurl (frontier (processPage
        \<lparr>targetUrl = ''https://example.com'', maxDepth = 3, urlColumnName = ''url''\<rparr> None
        \<lparr>uri = UriString ''https://example.com/a'', rdepth = Some 2, sel_title = '' A '',
         sel_description = None, html = ''<html/>'', body = ''<html/>'',
         anchors = [Some ''https://example.com/b'']\<rparr>
        \<lparr>pages = ([] :: unit uri_value prow list),
         frontier = [\<lparr>qid = 1, qurl = ''https://example.com/a'', is_crawled = False, depth = 0\<rparr>],
         log = [], done_calls = 0\<rparr>))
     = [''https://example.com/a'', ''https://example.com/b'']"
  using links_enqueued_only_below_maxDepth [where
      res = "\<lparr>uri = UriString ''https://example.com/a'', rdepth = Some 3, sel_title = '' A '',
        sel_description = None, html = ''<html/>'', body = ''<html/>'',
        anchors = [Some ''https://example.com/b'']\<rparr>"
      and c = "\<lparr>targetUrl = ''https://example.com'', maxDepth = 3, urlColumnName = ''url''\<rparr>"
      and s = "\<lparr>pages = ([] :: unit uri_value prow list),
        frontier = [\<lparr>qid = 1, qurl = ''https://example.com/a'', is_crawled = False, depth = 0\<rparr>],
        log = [], done_calls = 0\<rparr>"]
    links_enqueued_only_below_maxDepth [where
      res = "\<lparr>uri = UriString ''https://example.com/a'', rdepth = Some 2, sel_title = '' A '',
        sel_description = None, html = ''<html/>'', body = ''<html/>'',
        anchors = [Some ''https://example.com/b'']\<rparr>"
      and c = "\<lparr>targetUrl = ''https://example.com'', maxDepth = 3, urlColumnName = ''url''\<rparr>"
      and s = "\<lparr>pages = ([] :: unit uri_value prow list),
        frontier = [\<lparr>qid = 1, qurl = ''https://example.com/a'', is_crawled = False, depth = 0\<rparr>],
        log = [], done_calls = 0\<rparr>"]
  by (simp add: processPage_def depth_below_def extract_links_def upsert_page_def fresh_pid_def
      mark_uri_def markUrlAsCrawled_def queueUrls_def insert_queue_def fresh_id_def
      trim_def trim_start_def trim_end_def space1_def space2_def space3_def Let_def)

lemma extract_links_in_scope:
  assumes "targetUrl c \<noteq> []"
  shows "set (extract_links c as) = {h. Some h \<in> set as \<and> prefix (targetUrl c) h}"
  using assms unfolding set_extract_links by auto

lemma extract_links_no_match:
  assumes "\<forall>h. Some h \<in> set as \<longrightarrow> \<not> prefix (targetUrl c) h"
  shows "extract_links c as = []"
proof -
  from assms have "set (extract_links c as) = {}"
    unfolding set_extract_links by blast
  then show ?thesis by simp
qed

lemma out_of_scope_link_not_enqueued:
  assumes "Some link \<in> set (anchors res)" and "\<not> prefix (targetUrl c) link"
  shows "link \<notin> set (extract_links c (anchors res))"
    and "link \<notin> set (map qurl (frontier s))
      \<Longrightarrow> link \<notin> set (map qurl (frontier (processPage c None res s)))"
    and "link \<notin> set (map qurl (frontier n))
      \<Longrightarrow> link \<notin> set (map qurl (frontier (processPage_nodepth c None res n)))"
proof -
  show e: "link \<notin> set (extract_links c (anchors res))"
    using assms unfolding set_extract_links by blast
  show "link \<notin> set (map qurl (frontier s))
      \<Longrightarrow> link \<notin> set (map qurl (frontier (processPage c None res s)))"
    using e processPage_frontier_urls [of c res s] by blast
  show "link \<notin> set (map qurl (frontier n))
      \<Longrightarrow> link \<notin> set (map qurl (frontier (processPage_nodepth c None res n)))"
    using e processPage_nodepth_frontier_urls [of c res n] by blast
qed

lemma selector_links_malformed:
  assumes "list_all (\<lambda>ch. name_char ch \<or> url_punct ch) (targetUrl c)"
    and "\<not> list_all name_char (targetUrl c)"
  shows "selector_links c as = Some Malformed"
  using assms by (auto simp: selector_links_def Let_def)

lemma crawl_malformed_selector:
  assumes "depth_below (rdepth res) (maxDepth c)"
    and "selector_links c (anchors res) = Some Malformed"
  shows "crawl c None res s
     = Some (s\<lparr>log := log s @ [LogInfo ''Crawled''],
               pages := insert_on_duplicate (uri res) (sel_title res) (sel_description res)
                 (body res) (pages s)\<rparr>, Some SyntaxError)"
  using assms by (simp add: crawl_def crawl_page_def Let_def)

text \<open>
  C7. The link extractor is to yield exactly the href values that start with the target
  URL, nothing for a page without such an anchor, and no row for a link out of scope. The
  filter of \<open>processPage\<close> does so for every target URL that is not empty
  (\<open>extract_links_in_scope\<close>, \<open>extract_links_no_match\<close>,
  \<open>out_of_scope_link_not_enqueued\<close>). The selector of \<open>crawl\<close> in
  \<open>src/WebCrawler.ts\<close> does not: the target URL goes into the selector without quotes,
  so a target URL with \<open>:\<close> or \<open>/\<close> makes the selector malformed
  (\<open>selector_links_malformed\<close>, \<open>crawl_malformed_selector\<close>). With the target URL
  \<open>https://example.com\<close>, \<open>maxDepth = 1\<close> and a page at depth 0 that has two links
  in scope and one out of scope, the callback stores the page and throws a SyntaxError: no
  link is extracted and no row is added to the queue.
\<close>

theorem crawl_link_selector_is_malformed:
  "selector_links \<lparr>targetUrl = ''https://example.com'', maxDepth = 1, urlColumnName = ''url''\<rparr>
     [Some ''https://example.com/a'', Some ''https://example.com/b'', Some ''https://other.org/x'']
   = Some Malformed
   \<and> crawl \<lparr>targetUrl = ''https://example.com'', maxDepth = 1, urlColumnName = ''url''\<rparr> None
       \<lparr>uri = UriString ''https://example.com'', rdepth = Some 0, sel_title = ''Home'',
        sel_description = None, html = ''<html/>'', body = ''<html/>'',
        anchors = [Some ''https://example.com/a'', Some ''https://example.com/b'',
                   Some ''https://other.org/x'']\<rparr>
       \<lparr>pages = ([] :: unit uri_value prow list),
        frontier = [\<lparr>qid = 1, qurl = ''https://example.com'', is_crawled = False\<rparr>],
        log = [], done_calls = 0, handed = []\<rparr>
     = Some (\<lparr>pages = [\<lparr>pid = 1, purl = UriString ''https://example.com'', title = ''Home'',
                          description = None, raw_html = ''<html/>''\<rparr>],
              frontier = [\<lparr>qid = 1, qurl = ''https://example.com'', is_crawled = False\<rparr>],
              log = [LogInfo ''Crawled''], done_calls = 0, handed = []\<rparr>, Some SyntaxError)"
  by (simp add: crawl_def crawl_page_def selector_links_def name_char_def url_punct_def
      depth_below_def insert_on_duplicate_def fresh_pid_def Let_def)

section \<open>A failed fetch\<close>

lemma processPage_fetch_error:
  "processPage c (Some e) res s
     = s\<lparr>log := log s @ [LogError ''Error crawling URL:''], done_calls := Suc (done_calls s)\<rparr>
   \<and> processPage_nodepth c (Some e) res n
     = n\<lparr>log := log n @ [LogError ''Error crawling URL:''], done_calls := Suc (done_calls n)\<rparr>"
  by (simp add: processPage_def processPage_nodepth_def)

lemma claimed_row_not_selected:
  assumes "r \<in> set q" and "is_crawled r"
  shows "r \<notin> set (select_order md q) \<and> r \<in> set (fst (dequeueUrl c q))"
proof
  show "r \<notin> set (select_order md q)"
    using assms by (simp add: set_select_order eligible_def)
  have e: "r\<lparr>is_crawled := True\<rparr> = r"
    using assms(2) by (cases r) simp
  have u: "r \<in> set (dequeue_update ids q)" for ids
  proof -
    have "r = (if Some (SInt (int (qid r))) \<in> set ids then r\<lparr>is_crawled := True\<rparr> else r)"
      by (simp only: e if_cancel)
    from this assms(1) show ?thesis
      unfolding dequeue_update_def set_map by (rule image_eqI)
  qed
  show "r \<in> set (fst (dequeueUrl c q))"
  proof (cases "dequeue_select (maxDepth c) 1 q = []")
    case True
    with assms(1) show ?thesis by (simp add: dequeueUrl_def Let_def)
  next
    case False
    with u show ?thesis by (simp add: dequeueUrl_def Let_def)
  qed
qed

lemma getNextUrl_null:
  assumes "urlColumnName c \<noteq> ''length''" and "array_index (urlColumnName c) = None"
    and "urlColumnName c \<notin> set inherited_names"
  shows "getNextUrl c q = JNull"
  using assms by (simp add: getNextUrl_def array_prop_def truthy_def Let_def)

lemma crawl_fetch_error:
  "crawl c (Some e) res s
     = Some (if truthy (getNextUrl c (frontier s))
             then s\<lparr>log := log s @ [LogError e], done_calls := Suc (done_calls s),
                    handed := handed s @ [getNextUrl c (frontier s)]\<rparr>
             else s\<lparr>log := log s @ [LogError e], done_calls := Suc (done_calls s)\<rparr>, None)"
  by (simp add: crawl_def Let_def)

lemma crawl_fetch_error_hands_nothing:
  assumes "urlColumnName c \<noteq> ''length''" and "array_index (urlColumnName c) = None"
    and "urlColumnName c \<notin> set inherited_names"
  shows "crawl c (Some e) res s
     = Some (s\<lparr>log := log s @ [LogError e], done_calls := Suc (done_calls s)\<rparr>, None)"
  by (simp add: crawl_fetch_error getNextUrl_null [OF assms] truthy_def)

text \<open>
  C8. After a failed fetch the error is to be logged, no page row written, the row of the
  URL to stay claimed and not be retried, and the crawl to go on with the next claimable
  URL. The callbacks log the error, write nothing to either table and call \<open>done\<close>
  (\<open>processPage_fetch_error\<close>, \<open>crawl_fetch_error\<close>), and a row that
  \<open>dequeueUrl\<close> has claimed stays claimed and is not selected again
  (\<open>claimed_row_not_selected\<close>). But the crawl does not go on: in \<open>crawl\<close> the
  next URL is read as a property of the array of rows, which is undefined for a column
  named \<open>url\<close>, so nothing is handed to the fetch library
  (\<open>crawl_fetch_error_hands_nothing\<close>); and the row of the failed URL was never marked.
  With the rows 1 (the URL whose fetch failed) and 2 in the queue, both unmarked, the
  SELECT finds a row, the callback logs the error, calls \<open>done\<close>, hands over nothing
  and leaves both rows unmarked.
\<close>

theorem crawl_failed_fetch_hands_over_nothing:
  "crawl \<lparr>targetUrl = ''https://example.com'', maxDepth = 1, urlColumnName = ''url''\<rparr>
     (Some ''ETIMEDOUT'')
     \<lparr>uri = UriString ''https://example.com'', rdepth = Some 0, sel_title = [],
      sel_description = None, html = [], body = [], anchors = []\<rparr>
     \<lparr>pages = ([] :: unit uri_value prow list),
      frontier = [\<lparr>qid = 1, qurl = ''https://example.com'', is_crawled = False\<rparr>,
                  \<lparr>qid = 2, qurl = ''https://example.com/a'', is_crawled = False\<rparr>],
      log = [], done_calls = 0, handed = []\<rparr>
   = Some (\<lparr>pages = [],
            frontier = [\<lparr>qid = 1, qurl = ''https://example.com'', is_crawled = False\<rparr>,
                        \<lparr>qid = 2, qurl = ''https://example.com/a'', is_crawled = False\<rparr>],
            log = [LogError ''ETIMEDOUT''], done_calls = 1, handed = []\<rparr>, None)
   \<and> getNextUrl_select \<lparr>targetUrl = ''https://example.com'', maxDepth = 1, urlColumnName = ''url''\<rparr>
       [\<lparr>qid = 1, qurl = ''https://example.com'', is_crawled = False\<rparr>,
        \<lparr>qid = 2, qurl = ''https://example.com/a'', is_crawled = False\<rparr>]
     = [[(''url'', SText ''https://example.com'')]]"
  by (simp add: crawl_def getNextUrl_def getNextUrl_select_def array_prop_def array_index_def
      digit_def inherited_names_def truthy_def Let_def)

section \<open>Rows are never deleted or rewritten\<close>

lemma rows_preserved_append:
  "(\<And>r. kept r r) \<Longrightarrow> rows_preserved kept q (q @ ext)"
  by (simp add: rows_preserved_def list_all2_refl)

lemma rows_preserved_map:
  "(\<And>r. r \<in> set q \<Longrightarrow> kept r (f r)) \<Longrightarrow> rows_preserved kept q (map f q)"
  by (simp add: rows_preserved_def list_all2_conv_all_nth)

lemma row_kept_refl: "row_kept r r"
  by (simp add: row_kept_def)

lemma frow_kept_refl: "frow_kept r r"
  by (simp add: frow_kept_def)

lemma queueUrls_loop_extends: "\<exists>ext lg. queueUrls_loop us q = (Inr (q @ ext), lg)"
  using queueUrls_loop_append [of us q] by blast

lemma queueUrls_preserves: "rows_preserved row_kept q (fst (queueUrls us q))"
  using queueUrls_loop_extends [of us q] 
  by (auto simp: queueUrls_def rows_preserved_append row_kept_refl)

lemma seed_preserves: "rows_preserved row_kept q (fst (seed c q))"
  using rows_preserved_append [of row_kept q "[]"] 
  by (auto simp: seed_def insert_queue_def rows_preserved_append row_kept_refl)

lemma dequeue_update_preserves: "rows_preserved row_kept q (dequeue_update ids q)"
  unfolding dequeue_update_def by (rule rows_preserved_map) (simp add: row_kept_def)

lemma dequeueUrl_preserves: "rows_preserved row_kept q (fst (dequeueUrl c q))"
  using rows_preserved_append [of row_kept q "[]"]
  by (simp add: dequeueUrl_def Let_def dequeue_update_preserves row_kept_refl)

lemma markUrlAsCrawled_preserves: "rows_preserved frow_kept q (markUrlAsCrawled u q)"
  unfolding markUrlAsCrawled_def by (rule rows_preserved_map) (simp add: frow_kept_def)

lemma markUrlAsCrawled_preserves_qrow: "rows_preserved row_kept q (markUrlAsCrawled u q)"
  unfolding markUrlAsCrawled_def by (rule rows_preserved_map) (simp add: row_kept_def)

lemma insert_ignore_append: "\<exists>ext. insert_ignore us q = q @ ext"
proof (induction us arbitrary: q)
  case Nil
  then show ?case by simp
next
  case (Cons u us)
  show ?case
  proof (cases "u \<in> set (map qurl q)")
    case True
    with Cons.IH [of q] show ?thesis by simp
  next
    case False
    from Cons.IH [of "q @ [\<lparr>qid = fresh_id q, qurl = u, is_crawled = False\<rparr>]"]
    obtain ext where "insert_ignore us (q @ [\<lparr>qid = fresh_id q, qurl = u, is_crawled = False\<rparr>])
        = (q @ [\<lparr>qid = fresh_id q, qurl = u, is_crawled = False\<rparr>]) @ ext" by blast
    with False show ?thesis by simp
  qed
qed

lemma queueUrls_select_append: "\<exists>ext. queueUrls_select us q = q @ ext"
proof (induction us arbitrary: q)
  case Nil
  then show ?case by simp
next
  case (Cons u us)
  show ?case
  proof (cases "filter (\<lambda>r. qurl r = u) q = []")
    case True
    from Cons.IH [of "q @ [\<lparr>qid = fresh_id q, qurl = u, is_crawled = False\<rparr>]"]
    obtain ext where "queueUrls_select us (q @ [\<lparr>qid = fresh_id q, qurl = u, is_crawled = False\<rparr>])
        = (q @ [\<lparr>qid = fresh_id q, qurl = u, is_crawled = False\<rparr>]) @ ext" by blast
    with True show ?thesis by (simp add: Let_def)
  next
    case False
    with Cons.IH [of q] show ?thesis by (simp add: Let_def)
  qed
qed

lemma queueUrls_select_preserves: "rows_preserved frow_kept f (queueUrls_select us f)"
  using queueUrls_select_append [of us f]
  by (auto simp: rows_preserved_append frow_kept_refl)

lemma queueUrls_ignore_preserves:
  "queueUrls_ignore us f = Some f' \<Longrightarrow> rows_preserved frow_kept f f'"
proof -
  assume "queueUrls_ignore us f = Some f'"
  then have "f' = insert_ignore us f"
    by (simp add: queueUrls_ignore_def split: if_splits)
  then obtain ext where "f' = f @ ext"
    using insert_ignore_append [of us f] by auto
  then show ?thesis
    by (simp add: rows_preserved_append frow_kept_refl)
qed

text \<open>
  C9. The seed, \<open>queueUrls\<close> (in its three versions), \<open>dequeueUrl\<close> and
  \<open>markUrlAsCrawled\<close> preserve the rows of the queue: no row is deleted, the id, URL and
  depth of a row stay as they are, and the flag of a row changes only from not crawled to
  crawled.
\<close>

theorem frontier_rows_preserved:
  "rows_preserved row_kept q (fst (seed c q))
   \<and> rows_preserved row_kept q (fst (queueUrls us q))
   \<and> rows_preserved row_kept q (fst (dequeueUrl c q))
   \<and> rows_preserved row_kept q (markUrlAsCrawled u q)
   \<and> rows_preserved frow_kept f (markUrlAsCrawled u f)
   \<and> rows_preserved frow_kept f (queueUrls_select us f)
   \<and> (\<forall>f'. queueUrls_ignore us f = Some f' \<longrightarrow> rows_preserved frow_kept f f')"
  using queueUrls_ignore_preserves [of us f]
  by (simp add: seed_preserves queueUrls_preserves dequeueUrl_preserves
      markUrlAsCrawled_preserves markUrlAsCrawled_preserves_qrow queueUrls_select_preserves)

theorem frontier_rows_preserved_witness:
  "rows_preserved row_kept
     [\<lparr>qid = 1, qurl = ''https://example.com'', is_crawled = False, depth = 0\<rparr>]
     [\<lparr>qid = 1, qurl = ''https://example.com'', is_crawled = True, depth = 0\<rparr>]
   \<and> fst (dequeueUrl \<lparr>targetUrl = ''https://example.com'', maxDepth = 3, urlColumnName = ''url''\<rparr>
       [\<lparr>qid = 1, qurl = ''https://example.com'', is_crawled = False, depth = 0\<rparr>])
     = [\<lparr>qid = 1, qurl = ''https://example.com'', is_crawled = True, depth = 0\<rparr>]
   \<and> \<not> rows_preserved row_kept
     [\<lparr>qid = 1, qurl = ''https://example.com'', is_crawled = True, depth = 0\<rparr>]
     [\<lparr>qid = 1, qurl = ''https://example.com'', is_crawled = False, depth = 0\<rparr>]"
  using frontier_rows_preserved [of
      "[\<lparr>qid = 1, qurl = ''https://example.com'', is_crawled = False, depth = 0\<rparr>]"
      "\<lparr>targetUrl = ''https://example.com'', maxDepth = 3, urlColumnName = ''url''\<rparr>"
      "[]" "''https://example.com''" "[]"]
  by (simp add: dequeueUrl_def dequeue_select_def dequeue_update_def select_order_def
      eligible_def row_prop_def Let_def rows_preserved_def row_kept_def)

section \<open>A response whose URI is not a string\<close>

lemma crawl_non_string_uri_at_limit:
  assumes "uri res = UriOther v" and "\<not> depth_below (rdepth res) (maxDepth c)"
  shows "\<exists>s'. crawl c None res s = Some (s', Some (JsError ''url is not string''))
     \<and> pages s' = insert_on_duplicate (UriOther v) (sel_title res) (sel_description res)
          (body res) (pages s)
     \<and> UriOther v \<in> set (map purl (pages s'))
     \<and> frontier s' = frontier s
     \<and> done_calls s' = done_calls s
     \<and> handed s' = handed s"
proof -
  have "UriOther v \<in> set (map purl (insert_on_duplicate (UriOther v) (sel_title res)
      (sel_description res) (body res) (pages s)))"
    unfolding insert_on_duplicate_eq by (rule upsert_page_has_url)
  then show ?thesis
    using assms(1) by (simp add: crawl_def crawl_page_at_limit [OF assms(2)])
qed

text \<open>
  C10. For every response without a fetch error whose URI is not a string, \<open>crawl\<close> is
  to throw \<open>url is not string\<close>, after the upsert of the page and before the URL is
  marked and \<open>done\<close> is called. So it does when the depth is not below \<open>maxDepth\<close>
  (\<open>crawl_non_string_uri_at_limit\<close>). Below \<open>maxDepth\<close> the link selector is
  evaluated before the test of the URI, and with a target URL such as
  \<open>https://example.com\<close> it is malformed (\<open>selector_links_malformed\<close>): for a
  response at depth 0 with \<open>maxDepth = 3\<close> whose URI is not a string, the exception is
  the SyntaxError, not \<open>url is not string\<close>.
\<close>

theorem crawl_non_string_uri_below_maxDepth:
  "crawl \<lparr>targetUrl = ''https://example.com'', maxDepth = 3, urlColumnName = ''url''\<rparr> None
     \<lparr>uri = UriOther (), rdepth = Some 0, sel_title = ''Home'', sel_description = None,
      html = [], body = ''<html/>'', anchors = [Some ''https://example.com/a'']\<rparr>
     \<lparr>pages = [], frontier = [\<lparr>qid = 1, qurl = ''https://example.com'', is_crawled = False\<rparr>],
      log = [], done_calls = 0, handed = []\<rparr>
   = Some (\<lparr>pages = [\<lparr>pid = 1, purl = UriOther (), title = ''Home'', description = None,
                        raw_html = ''<html/>''\<rparr>],
            frontier = [\<lparr>qid = 1, qurl = ''https://example.com'', is_crawled = False\<rparr>],
            log = [LogInfo ''Crawled''], done_calls = 0, handed = []\<rparr>, Some SyntaxError)
   \<and> SyntaxError \<noteq> JsError ''url is not string''"
  by (simp add: crawl_def crawl_page_def selector_links_def name_char_def url_punct_def
      depth_below_def insert_on_duplicate_def fresh_pid_def Let_def)

end
